theory Spec2Isabelle
  imports Complex_Main "HOL-Library.Word"
begin

unbundle bit_operations_syntax

section \<open>Machine types\<close>

text \<open>
  Bytes are 8-bit words, the C types \<open>__u32\<close>/\<open>__u64\<close> and Go's \<open>uint32\<close>/\<open>uint64\<close> are
  32- and 64-bit words. A Go \<open>[]byte\<close> and a Go \<open>string\<close> are both byte sequences; string
  literals of the source are written with \<open>str\<close>.
\<close>

type_synonym byte = "8 word"
type_synonym u32 = "32 word"
type_synonym u64 = "64 word"

definition str :: "string \<Rightarrow> byte list" where
  "str s = map of_char s"

section \<open>The capture program (bpf/write\_tracer.c)\<close>

text \<open>\<open>struct write_event_t\<close>: the array \<open>data[240]\<close> is a list whose length the program keeps at 240.\<close>

record write_event_t =
  pid :: u32
  fd :: u32
  data :: "byte list"
  data_len :: u32

text \<open>
  The tracepoint context of \<open>sys_enter_write\<close>: the three system call arguments, which the
  program reads at the offsets 16, 24 and 32 of \<open>ctx\<close>. The target is little-endian
  (\<open>-target bpfel\<close>), so the 4 bytes read at offset 16 are the low half of the first argument.
  The context is kernel memory that is always mapped: these three reads do not fault.
\<close>

record trace_ctx =
  arg_fd :: u64
  arg_buf :: u64
  arg_count :: u64

text \<open>The address space of the traced process: an address is mapped to a byte, or not mapped.\<close>

type_synonym user_mem = "u64 \<Rightarrow> byte option"

fun read_user_bytes :: "user_mem \<Rightarrow> u64 \<Rightarrow> nat \<Rightarrow> byte list option" where
  "read_user_bytes mem a 0 = Some []"
| "read_user_bytes mem a (Suc n) =
     (case mem a of
        None \<Rightarrow> None
      | Some b \<Rightarrow>
          (case read_user_bytes mem (a + 1) n of
             None \<Rightarrow> None
           | Some bs \<Rightarrow> Some (b # bs)))"

text \<open>
  The kernel helper \<open>bpf_probe_read_user(dst, size, src)\<close>: it copies \<open>size\<close> bytes to the
  start of \<open>dst\<close>, and on a fault it fills them with zeros. The program ignores its result.
\<close>

definition bpf_probe_read_user :: "byte list \<Rightarrow> nat \<Rightarrow> user_mem \<Rightarrow> u64 \<Rightarrow> byte list" where
  "bpf_probe_read_user dst sz mem src =
     (case read_user_bytes mem src sz of
        Some bs \<Rightarrow> bs @ drop sz dst
      | None \<Rightarrow> replicate sz 0 @ drop sz dst)"

text \<open>
  \<open>trace_write\<close>: \<open>target_pid\<close> is the hash map of watched pids, \<open>pid_tgid\<close> the value of
  \<open>bpf_get_current_pid_tgid()\<close>. The result is the record the program hands to
  \<open>bpf_ringbuf_output\<close> (or \<open>bpf_perf_event_output\<close>), \<open>None\<close> when it returns before that
  because the pid is not watched. The output helper publishes exactly this record or, when
  the buffer is full, drops it.
\<close>

definition trace_write :: "(u32 \<rightharpoonup> u32) \<Rightarrow> u64 \<Rightarrow> trace_ctx \<Rightarrow> user_mem \<Rightarrow> write_event_t option" where
  "trace_write target_pid pid_tgid ctx mem =
     (let p = (ucast (drop_bit 32 pid_tgid) :: u32) in
      case target_pid p of
        None \<Rightarrow> None
      | Some watching \<Rightarrow>
          (let event = \<lparr>pid = p, fd = ucast (arg_fd ctx), data = replicate 240 0, data_len = 0\<rparr>;
               buf_ptr = arg_buf ctx;
               count = arg_count ctx;
               count = (if count > 240 then 240 else count);
               event = event\<lparr>data_len := ucast count\<rparr>;
               event = (if count > 0
                        then event\<lparr>data := bpf_probe_read_user (data event) (unat count) mem buf_ptr\<rparr>
                        else event)
           in Some event))"

section \<open>The wire format\<close>

text \<open>Little-endian 32-bit fields, as the C compiler lays them out and as
  \<open>binary.LittleEndian\<close> reads them.\<close>

definition PutUint32 :: "u32 \<Rightarrow> byte list" where
  "PutUint32 v = [ucast v, ucast (drop_bit 8 v), ucast (drop_bit 16 v), ucast (drop_bit 24 v)]"

definition Uint32 :: "byte list \<Rightarrow> u32" where
  "Uint32 b = (ucast (b ! 0) OR push_bit 8 (ucast (b ! 1)) OR push_bit 16 (ucast (b ! 2))
                OR push_bit 24 (ucast (b ! 3)))"

text \<open>
  The memory image of a \<open>struct write_event_t\<close>, which the capture program publishes with
  \<open>sizeof(event)\<close> = 252 bytes: pid at offset 0, fd at 4, data at 8, data\_len at 248.
\<close>

definition encode_write_event :: "write_event_t \<Rightarrow> byte list" where
  "encode_write_event e = PutUint32 (pid e) @ PutUint32 (fd e) @ data e @ PutUint32 (data_len e)"

section \<open>The decoder (cmd/kubeglass)\<close>

text \<open>The error values the consumers tell apart. \<open>ErrClosed\<close> and \<open>EOF\<close> are the sentinel values
  \<open>ringbuf.ErrClosed\<close> (\<open>perf.ErrClosed\<close>) and \<open>io.EOF\<close> themselves, which the consumers test with
  \<open>==\<close>; \<open>OtherError\<close> carries the message of any other error, an error that wraps a
  sentinel included, since it is not identical to it.\<close>

datatype error = ErrClosed | EOF | ErrUnexpectedEOF | OtherError "byte list"

text \<open>\<open>bpfWriteEvent\<close> of main.go; \<open>writeEvent\<close> of the perf-buffer variant has the same fields.\<close>

record bpfWriteEvent =
  PID :: u32
  FD :: u32
  Data :: "byte list"
  DataLen :: u32

record Event =
  Event_PID :: u32
  Event_FD :: u32
  Payload :: "byte list"

text \<open>
  \<open>binary.Read(reader over the raw sample, binary.LittleEndian, &bpfEvent)\<close>: it reads the 252
  bytes of the struct with \<open>io.ReadFull\<close>, which fails with \<open>io.EOF\<close> on an empty sample
  and with \<open>io.ErrUnexpectedEOF\<close> on a shorter one, and then decodes the fields in order.
\<close>

definition binary_Read :: "byte list \<Rightarrow> error + bpfWriteEvent" where
  "binary_Read raw =
     (if raw = [] then Inl EOF
      else if length raw < 252 then Inl ErrUnexpectedEOF
      else Inr \<lparr>PID = Uint32 (take 4 raw),
                FD = Uint32 (take 4 (drop 4 raw)),
                Data = take 240 (drop 8 raw),
                DataLen = Uint32 (take 4 (drop 248 raw))\<rparr>)"

text \<open>The slice expression \<open>a[:n]\<close>: Go panics at run time when \<open>n\<close> exceeds the length
  of the array; \<open>None\<close> is that panic.\<close>

definition slice_to :: "byte list \<Rightarrow> u32 \<Rightarrow> byte list option" where
  "slice_to a n = (if unat n \<le> length a then Some (take (unat n) a) else None)"

text \<open>The composite literal \<open>Event{PID: ..., FD: ..., Payload: bpfEvent.Data[:bpfEvent.DataLen]}\<close>
  of \<open>pollNextEvent\<close>.\<close>

definition make_Event :: "bpfWriteEvent \<Rightarrow> Event option" where
  "make_Event bpfEvent =
     (case slice_to (Data bpfEvent) (DataLen bpfEvent) of
        None \<Rightarrow> None
      | Some payload \<Rightarrow> Some \<lparr>Event_PID = PID bpfEvent, Event_FD = FD bpfEvent, Payload = payload\<rparr>)"

text \<open>Decoding a raw sample to an event: an error of \<open>binary.Read\<close>, a panic of the slice
  expression, or the event.\<close>

datatype 'a outcome = Failed error | Panicked | Done 'a

definition decode_sample :: "byte list \<Rightarrow> Event outcome" where
  "decode_sample raw =
     (case binary_Read raw of
        Inl e \<Rightarrow> Failed e
      | Inr bpfEvent \<Rightarrow> (case make_Event bpfEvent of None \<Rightarrow> Panicked | Some event \<Rightarrow> Done event))"

section \<open>Go library functions used by the formatter\<close>

text \<open>
  \<open>unicode.IsPrint(rune(b))\<close> for a byte \<open>b\<close>: a rune up to U+00FF is looked up in the Latin-1
  table of package unicode, where the printable ones are U+0020 to U+007E and U+00A1 to
  U+00FF without the soft hyphen U+00AD.
\<close>

definition unicode_IsPrint :: "byte \<Rightarrow> bool" where
  "unicode_IsPrint b = ((0x20 \<le> b \<and> b \<le> 0x7E) \<or> (0xA1 \<le> b \<and> b \<noteq> 0xAD))"

text \<open>\<open>bytes.IndexByte\<close>: the index of the first \<open>c\<close>, or -1.\<close>

fun IndexByte :: "byte list \<Rightarrow> byte \<Rightarrow> int" where
  "IndexByte [] c = - 1"
| "IndexByte (x # xs) c =
     (if x = c then 0 else (let i = IndexByte xs c in if i < 0 then - 1 else i + 1))"

text \<open>\<open>bytes.TrimRight(s, cutset)\<close> for a cutset of single-byte characters.\<close>

definition TrimRight :: "byte list \<Rightarrow> byte list \<Rightarrow> byte list" where
  "TrimRight s cutset = rev (dropWhile (\<lambda>b. b \<in> set cutset) (rev s))"

text \<open>\<open>strings.ReplaceAll(s, old, new)\<close> for a non-empty \<open>old\<close>: the non-overlapping
  occurrences of \<open>old\<close> are replaced from left to right. The formatter calls it with
  one-byte patterns only; an empty pattern, where Go inserts \<open>new\<close> around every character,
  is left as the identity here.\<close>

function ReplaceAll :: "byte list \<Rightarrow> byte list \<Rightarrow> byte list \<Rightarrow> byte list" where
  "ReplaceAll [] old new = []"
| "ReplaceAll (c # s) old new =
     (if old \<noteq> [] \<and> take (length old) (c # s) = old
      then new @ ReplaceAll (drop (length old) (c # s)) old new
      else c # ReplaceAll s old new)"
  by pat_completeness auto
termination
  by (relation "measure (\<lambda>(s, old, new). length s)") auto

text \<open>The verb \<open>%d\<close> of package fmt.\<close>

fun digits :: "nat \<Rightarrow> byte list" where
  "digits n = (if n < 10 then [48 + of_nat n] else digits (n div 10) @ [48 + of_nat (n mod 10)])"

declare digits.simps [simp del]

definition fmt_d :: "int \<Rightarrow> byte list" where
  "fmt_d i = (if i < 0 then 45 # digits (nat (- i)) else digits (nat i))"

text \<open>
  \<open>hex.Dump\<close> of package encoding/hex, the format of \<open>hexdump -C\<close>: lines of 16 bytes, each
  with the offset in 8 hex digits, the bytes in hex with one more space after the eighth,
  and the bytes as characters between bars.
\<close>

definition hexdigit :: "nat \<Rightarrow> byte" where
  "hexdigit n = str ''0123456789abcdef'' ! n"

definition hex_Encode :: "byte list \<Rightarrow> byte list" where
  "hex_Encode bs = concat (map (\<lambda>b. [hexdigit (unat b div 16), hexdigit (unat b mod 16)]) bs)"

definition toChar :: "byte \<Rightarrow> byte" where
  "toChar b = (if b < 32 \<or> b > 126 then 46 else b)"

definition dump_cell :: "nat \<Rightarrow> byte list \<Rightarrow> byte list" where
  "dump_cell used cell =
     (if used = 7 then cell @ str '' ''
      else if used = 15 then cell @ str '' |''
      else cell)"

definition dump_line :: "nat \<Rightarrow> byte list \<Rightarrow> byte list" where
  "dump_line n chunk =
     hex_Encode [of_nat (n div 2 ^ 24), of_nat (n div 2 ^ 16), of_nat (n div 2 ^ 8), of_nat n]
     @ str ''  ''
     @ concat (map (\<lambda>i. dump_cell i (hex_Encode [chunk ! i] @ str '' '')) [0..<length chunk])
     @ concat (map (\<lambda>i. dump_cell i (str ''   '')) [length chunk..<16])
     @ map toChar chunk @ [124, 10]"

fun hex_Dump_from :: "nat \<Rightarrow> byte list \<Rightarrow> byte list" where
  "hex_Dump_from n bs =
     (if bs = [] then [] else dump_line n (take 16 bs) @ hex_Dump_from (n + 16) (drop 16 bs))"

declare hex_Dump_from.simps [simp del]

definition hex_Dump :: "byte list \<Rightarrow> byte list" where
  "hex_Dump bs = hex_Dump_from 0 bs"


section \<open>Binary64 arithmetic\<close>

text \<open>
  The finite values of Go's \<open>float64\<close> are modelled as the rationals they denote. A
  conversion, a division or a constant is the exact result rounded to the nearest value
  with a 53-bit significand, ties to even: the magnitude is scaled by powers of two until its
  integral part has 53 bits (the exponent stops at -1074, where the subnormal numbers
  begin), and rounded to an integer there. Overflow to infinity is outside the model: it
  needs a magnitude of 2^1024.
\<close>

definition round_half_even :: "rat \<Rightarrow> int" where
  "round_half_even x =
     (let f = \<lfloor>x\<rfloor>; r = x - of_int f
      in if r < 1 / 2 then f else if 1 / 2 < r then f + 1 else if even f then f else f + 1)"

fun f64_scale_down :: "nat \<Rightarrow> rat \<Rightarrow> rat \<Rightarrow> rat \<times> rat" where
  "f64_scale_down 0 x s = (x, s)"
| "f64_scale_down (Suc k) x s = (if 2 ^ 53 \<le> x then f64_scale_down k (x / 2) (s * 2) else (x, s))"

fun f64_scale_up :: "nat \<Rightarrow> rat \<Rightarrow> rat \<Rightarrow> rat \<times> rat" where
  "f64_scale_up 0 x s = (x, s)"
| "f64_scale_up (Suc k) x s = (if x < 2 ^ 52 then f64_scale_up k (x * 2) (s / 2) else (x, s))"

definition f64_round_pos :: "rat \<Rightarrow> rat" where
  "f64_round_pos x =
     (let (y, s) = f64_scale_down 971 x 1;
          (z, t) = f64_scale_up 1074 y s
      in of_int (round_half_even z) * t)"

definition f64_round :: "rat \<Rightarrow> rat" where
  "f64_round x = (if x < 0 then - f64_round_pos (- x) else f64_round_pos x)"

text \<open>The conversion \<open>float64(i)\<close> of an \<open>int\<close> and the quotient of two \<open>float64\<close> values
  (the divisor is not zero where the program divides).\<close>

definition float64_of_int :: "int \<Rightarrow> rat" where
  "float64_of_int i = f64_round (of_int i)"

definition f64_div :: "rat \<Rightarrow> rat \<Rightarrow> rat" where
  "f64_div a b = f64_round (a / b)"

section \<open>Classification and formatting (cmd/kubeglass/main.go)\<close>

text \<open>The counting loop of \<open>isPrintable\<close>. The counter is a Go \<open>int\<close>; it never exceeds the
  length of the slice, so it does not overflow.\<close>

fun printableCount_loop :: "byte list \<Rightarrow> int \<Rightarrow> int" where
  "printableCount_loop [] printableCount = printableCount"
| "printableCount_loop (b # bs) printableCount =
     printableCount_loop bs
       (if b = 10 \<or> b = 13 \<or> b = 9 \<or> unicode_IsPrint b then printableCount + 1 else printableCount)"

definition isPrintable :: "byte list \<Rightarrow> bool" where
  "isPrintable d =
     (if length d = 0 then True
      else (let printableCount = printableCount_loop d 0
            in f64_div (float64_of_int printableCount) (float64_of_int (int (length d)))
                 > f64_round (9 / 10)))"

text \<open>The loop of \<open>formatData\<close> that sets its local flag \<open>isPrintable\<close>: null bytes are
  skipped, the first other byte that is neither newline, carriage return, tab nor printable
  clears the flag.\<close>

fun formatData_isPrintable :: "byte list \<Rightarrow> bool" where
  "formatData_isPrintable [] = True"
| "formatData_isPrintable (b # bs) =
     (if b = 0 then formatData_isPrintable bs
      else if b \<noteq> 10 \<and> b \<noteq> 13 \<and> b \<noteq> 9 \<and> \<not> unicode_IsPrint b then False
      else formatData_isPrintable bs)"

definition formatData :: "byte list \<Rightarrow> byte list" where
  "formatData d =
     (if length d = 0 then str ''<empty>''
      else
        (let nullByteIndex = IndexByte d 0;
             containsNullByte = (nullByteIndex \<ge> 0)
         in if formatData_isPrintable d then
              (let d1 = (if containsNullByte then take (nat nullByteIndex) d else d);
                   cleanData = TrimRight d1 [0];
                   formattedData = ReplaceAll cleanData [10] [92, 110];
                   formattedData = ReplaceAll formattedData [13] [92, 114];
                   formattedData = ReplaceAll formattedData [9] [92, 116]
               in formattedData)
            else
              (let maxLen = 32
               in if length d > maxLen
                  then hex_Dump (take maxLen d) @ str ''... ('' @ fmt_d (int (length d)) @ str '' bytes total)''
                  else hex_Dump d)))"

definition fdString :: "u32 \<Rightarrow> byte list" where
  "fdString f =
     (if f = 0 then str ''stdin''
      else if f = 1 then str ''stdout''
      else if f = 2 then str ''stderr''
      else str ''fd '' @ fmt_d (uint f))"

section \<open>The interactive consumer (cmd/kubeglass/tui.go)\<close>

text \<open>
  The messages \<open>Update\<close> receives: the nil message that \<open>pollNextEvent\<close> returns for an error
  identical to \<open>ringbuf.ErrClosed\<close> or \<open>io.EOF\<close>, an error, a decoded event, a key (by the name
  \<open>msg.String()\<close> gives it), a window size, and any other message of the runtime.
\<close>

datatype msg = NilMsg | ErrMsg error | EventMsg Event | KeyMsg string | WindowSizeMsg int int
  | OtherMsg nat

text \<open>
  The commands \<open>Update\<close> returns: \<open>nil\<close>, \<open>tea.Quit\<close>, the method value \<open>m.pollNextEvent\<close>,
  a command of the text input or of the viewport widget (opaque; the widgets of the bubbles
  library return no quit command), and \<open>tea.Batch\<close> of a list of commands.
\<close>

datatype cmd = NoCmd | Quit | PollNextEvent | WidgetCmd nat | Batch "cmd list"

text \<open>
  \<open>tuiModel\<close>. The regular expression, the text input and the viewport are values of the
  libraries regexp and bubbles, kept abstract as the type parameters \<open>'re\<close>, \<open>'ti\<close> and \<open>'vp\<close>;
  a nil \<open>grepRegex\<close> is \<open>None\<close>, the map \<open>fdFilter\<close> gives false for a missing key. The fields
  \<open>ctx\<close>, \<open>rd\<close> and \<open>keys\<close> do not change; the reader is passed to \<open>pollNextEvent\<close>.
\<close>

record ('re, 'ti, 'vp) tuiModel =
  input :: 'ti
  help_Width :: int
  help_ShowAll :: bool
  showAll :: bool
  fdFilter :: "u32 \<Rightarrow> bool"
  skipBinary :: bool
  grepRegex :: "'re option"
  filtering :: bool
  err :: "error option"
  events :: "byte list list"
  viewport :: 'vp
  ready :: bool

text \<open>
  The library functions the consumer calls, as parameters: \<open>regexp.Compile\<close> (\<open>None\<close> when
  the pattern is invalid, where Go returns a nil pointer and an error) and \<open>Match\<close>, the text
  input and viewport operations, and the heights of the rendered header and footer.
\<close>

record ('re, 'ti, 'vp) lib =
  regexp_Compile :: "byte list \<Rightarrow> 're option"
  regexp_Match :: "'re \<Rightarrow> byte list \<Rightarrow> bool"
  textinput_New :: 'ti
  textinput_Value :: "'ti \<Rightarrow> byte list"
  textinput_Update :: "'ti \<Rightarrow> msg \<Rightarrow> 'ti \<times> nat"
  textinput_Focus :: "'ti \<Rightarrow> 'ti"
  textinput_Blur :: "'ti \<Rightarrow> 'ti"
  textinput_Reset :: "'ti \<Rightarrow> 'ti"
  viewport_zero :: 'vp
  viewport_New :: "int \<Rightarrow> int \<Rightarrow> int \<Rightarrow> 'vp"
  viewport_Resize :: "'vp \<Rightarrow> int \<Rightarrow> int \<Rightarrow> 'vp"
  viewport_Update :: "'vp \<Rightarrow> msg \<Rightarrow> 'vp \<times> nat"
  viewport_SetContent :: "'vp \<Rightarrow> byte list \<Rightarrow> 'vp"
  viewport_GotoBottom :: "'vp \<Rightarrow> 'vp"
  headerHeight :: "('re, 'ti, 'vp) tuiModel \<Rightarrow> int"
  footerHeight :: "('re, 'ti, 'vp) tuiModel \<Rightarrow> int"

definition newTUIModel :: "('re, 'ti, 'vp) lib \<Rightarrow> ('re, 'ti, 'vp) tuiModel" where
  "newTUIModel L =
     \<lparr>input = textinput_Focus L (textinput_New L),
      help_Width = 0,
      help_ShowAll = False,
      showAll = True,
      fdFilter = (\<lambda>f. False),
      skipBinary = True,
      grepRegex = None,
      filtering = False,
      err = None,
      events = [],
      viewport = viewport_zero L,
      ready = False\<rparr>"

text \<open>
  \<open>pollNextEvent\<close>. The reader is the list of the results its \<open>Read\<close> calls give, in order: an
  error or a raw sample. On an exhausted list \<open>Read\<close> blocks and the function does not
  return (\<open>Blocked\<close>); it panics where the slice expression does (\<open>Crashed\<close>); otherwise it
  returns a message. The second component is what is left of the reader.
\<close>

datatype poll = Blocked | Crashed | Delivered msg

fun pollNextEvent ::
  "('re, 'ti, 'vp) lib \<Rightarrow> ('re, 'ti, 'vp) tuiModel \<Rightarrow> (error + byte list) list
     \<Rightarrow> poll \<times> (error + byte list) list" where
  "pollNextEvent L m [] = (Blocked, [])"
| "pollNextEvent L m (r # rd) =
     (case r of
        Inl e \<Rightarrow>
          (if e = ErrClosed \<or> e = EOF then (Delivered NilMsg, rd) else (Delivered (ErrMsg e), rd))
      | Inr raw \<Rightarrow>
          (case decode_sample raw of
             Failed e \<Rightarrow> (Delivered (ErrMsg e), rd)
           | Panicked \<Rightarrow> (Crashed, rd)
           | Done event \<Rightarrow>
               (if \<not> showAll m \<and> \<not> fdFilter m (Event_FD event) then pollNextEvent L m rd
                else if skipBinary m \<and> \<not> isPrintable (Payload event) then pollNextEvent L m rd
                else if (case grepRegex m of
                           None \<Rightarrow> False
                         | Some re \<Rightarrow> \<not> regexp_Match L re (Payload event))
                     then pollNextEvent L m rd
                else (Delivered (EventMsg event), rd))))"


text \<open>\<open>key.Matches\<close> on a binding with the given keys, and the bindings of \<open>keys\<close>.\<close>

definition key_Matches :: "string \<Rightarrow> string list \<Rightarrow> bool" where
  "key_Matches k binding = (k \<in> set binding)"

definition keys_Quit :: "string list" where "keys_Quit = [''q'', ''ctrl+c'']"
definition keys_Filter :: "string list" where "keys_Filter = [''/'']"
definition keys_Clear :: "string list" where "keys_Clear = [''esc'']"
definition keys_ToggleAll :: "string list" where "keys_ToggleAll = [''a'']"
definition keys_ToggleBinary :: "string list" where "keys_ToggleBinary = [''b'']"
definition keys_ToggleHelp :: "string list" where "keys_ToggleHelp = [''?'']"

text \<open>\<open>strings.Join\<close>.\<close>

fun Join :: "byte list list \<Rightarrow> byte list \<Rightarrow> byte list" where
  "Join [] sep = []"
| "Join [x] sep = x"
| "Join (x # y # ys) sep = x @ sep @ Join (y # ys) sep"

text \<open>The end of \<open>Update\<close>, after the switch: the message goes to the viewport and the
  commands collected so far are batched with the viewport's.\<close>

definition after_switch ::
  "('re, 'ti, 'vp) lib \<Rightarrow> ('re, 'ti, 'vp) tuiModel \<Rightarrow> msg \<Rightarrow> cmd list
     \<Rightarrow> ('re, 'ti, 'vp) tuiModel \<times> cmd" where
  "after_switch L m msg cmds =
     (let (vp, c) = viewport_Update L (viewport m) msg
      in (m\<lparr>viewport := vp\<rparr>, Batch (cmds @ [WidgetCmd c])))"

definition Update ::
  "('re, 'ti, 'vp) lib \<Rightarrow> ('re, 'ti, 'vp) tuiModel \<Rightarrow> msg \<Rightarrow> ('re, 'ti, 'vp) tuiModel \<times> cmd" where
  "Update L m msg =
     (case msg of
        WindowSizeMsg w h \<Rightarrow>
          (let m = m\<lparr>help_Width := w\<rparr>;
               hh = headerHeight L m;
               fh = footerHeight L m;
               verticalMarginHeight = hh + fh;
               m = (if \<not> ready m
                    then m\<lparr>viewport := viewport_New L w (h - verticalMarginHeight) hh, ready := True\<rparr>
                    else m\<lparr>viewport := viewport_Resize L (viewport m) w (h - verticalMarginHeight)\<rparr>)
           in after_switch L m msg [])
      | EventMsg e \<Rightarrow>
          (let line = str ''[PID '' @ fmt_d (uint (Event_PID e)) @ str '', '' @ fdString (Event_FD e)
                        @ str ''] '' @ formatData (Payload e);
               m = m\<lparr>events := events m @ [line]\<rparr>;
               m = m\<lparr>viewport :=
                      viewport_GotoBottom L (viewport_SetContent L (viewport m) (Join (events m) [10]))\<rparr>
           in (m, PollNextEvent))
      | ErrMsg e \<Rightarrow> (m\<lparr>err := Some e\<rparr>, Quit)
      | KeyMsg k \<Rightarrow>
          (if filtering m then
             (if key_Matches k keys_Quit then
                after_switch L (m\<lparr>filtering := False, input := textinput_Blur L (input m)\<rparr>) msg []
              else if key_Matches k [''enter''] then
                after_switch L
                  (m\<lparr>grepRegex := regexp_Compile L (textinput_Value L (input m)),
                     filtering := False,
                     input := textinput_Blur L (input m)\<rparr>) msg []
              else
                (let (ti, c) = textinput_Update L (input m) msg
                 in after_switch L (m\<lparr>input := ti\<rparr>) msg [WidgetCmd c]))
           else
             (if key_Matches k keys_Quit then (m, Quit)
              else if key_Matches k keys_Filter then
                (m\<lparr>filtering := True, input := textinput_Focus L (input m)\<rparr>, NoCmd)
              else if key_Matches k keys_Clear then
                after_switch L (m\<lparr>input := textinput_Reset L (input m), grepRegex := None\<rparr>) msg []
              else if key_Matches k keys_ToggleAll then
                after_switch L (m\<lparr>showAll := \<not> showAll m\<rparr>) msg []
              else if key_Matches k keys_ToggleBinary then
                after_switch L (m\<lparr>skipBinary := \<not> skipBinary m\<rparr>) msg []
              else if key_Matches k keys_ToggleHelp then
                after_switch L (m\<lparr>help_ShowAll := \<not> help_ShowAll m\<rparr>) msg []
              else after_switch L m msg []))
      | NilMsg \<Rightarrow> after_switch L m msg []
      | OtherMsg n \<Rightarrow> after_switch L m msg [])"

text \<open>Whether running a command ends the program: \<open>tea.Quit\<close>, alone or in a batch.\<close>

fun quits :: "cmd \<Rightarrow> bool" where
  "quits Quit = True"
| "quits (Batch cs) = list_ex quits cs"
| "quits c = False"

text \<open>Whether a command polls the reader again.\<close>

fun polls :: "cmd \<Rightarrow> bool" where
  "polls PollNextEvent = True"
| "polls (Batch cs) = list_ex polls cs"
| "polls c = False"

text \<open>The states of the specification's state machine, read off the result of \<open>Update\<close>:
  \<open>Terminated\<close> when the command quits, else \<open>Filtering\<close> or \<open>Normal\<close> by the flag.\<close>

datatype consumer_state = Normal | Filtering | Terminated

definition state_after :: "('re, 'ti, 'vp) tuiModel \<times> cmd \<Rightarrow> consumer_state" where
  "state_after r = (if quits (snd r) then Terminated else if filtering (fst r) then Filtering else Normal)"

definition state_of :: "('re, 'ti, 'vp) tuiModel \<Rightarrow> consumer_state" where
  "state_of m = (if filtering m then Filtering else Normal)"

text \<open>A stand-in for the libraries, for evaluating the consumer on concrete inputs: the
  pattern "(" is the invalid one, a valid pattern matches the payloads that contain its first
  byte; the widgets keep a text and ignore messages.\<close>

definition demo_lib :: "(byte list, byte list, byte list) lib" where
  "demo_lib =
     \<lparr>regexp_Compile = (\<lambda>p. if p = str ''('' then None else Some p),
      regexp_Match = (\<lambda>re d. re = [] \<or> hd re \<in> set d),
      textinput_New = [],
      textinput_Value = (\<lambda>t. t),
      textinput_Update = (\<lambda>t k. (t, 0)),
      textinput_Focus = (\<lambda>t. t),
      textinput_Blur = (\<lambda>t. t),
      textinput_Reset = (\<lambda>t. []),
      viewport_zero = [],
      viewport_New = (\<lambda>w h y. []),
      viewport_Resize = (\<lambda>v w h. v),
      viewport_Update = (\<lambda>v k. (v, 0)),
      viewport_SetContent = (\<lambda>v s. s),
      viewport_GotoBottom = (\<lambda>v. v),
      headerHeight = (\<lambda>m. 2),
      footerHeight = (\<lambda>m. 2)\<rparr>"

section \<open>The non-interactive consumer (the perf-buffer variant of main.go)\<close>

text \<open>The message of an error, as \<open>%v\<close> prints it.\<close>

definition Error_text :: "error \<Rightarrow> byte list" where
  "Error_text e =
     (case e of
        ErrClosed \<Rightarrow> str ''file already closed''
      | EOF \<Rightarrow> str ''EOF''
      | ErrUnexpectedEOF \<Rightarrow> str ''unexpected EOF''
      | OtherError s \<Rightarrow> s)"

text \<open>The command-line flags the loop reads, after \<open>main\<close> has parsed them.\<close>

record flags =
  flag_showAll :: bool
  flag_fdFilter :: "u32 \<Rightarrow> bool"
  flag_suppressRepeats :: bool
  flag_skipBinary :: bool

text \<open>The variables \<open>lastEvent\<close>, \<open>lastDataStr\<close> and \<open>repeatCount\<close> (a Go \<open>int\<close>, 64 bits, read
  as signed) that the loop keeps between records.\<close>

record loop_state =
  lastEvent :: "bpfWriteEvent option"
  lastDataStr :: "byte list"
  repeatCount :: "64 word"

definition initial_state :: loop_state where
  "initial_state = \<lparr>lastEvent = None, lastDataStr = [], repeatCount = 0\<rparr>"

text \<open>\<open>perf.Record\<close>, and a line written to standard output or standard error.\<close>

record perf_Record =
  LostSamples :: u64
  RawSample :: "byte list"

datatype written = Stdout "byte list" | Stderr "byte list"

text \<open>
  One pass through the body of the loop, on the result of \<open>rd.Read()\<close>: the goroutine returns,
  panics (the slice expression, or a nil \<open>lastEvent\<close>), or goes on to the next pass with a new
  state, after writing some lines.
\<close>

datatype step = Return | Panics | Continue loop_state "written list"

definition loop_body :: "flags \<Rightarrow> loop_state \<Rightarrow> error + perf_Record \<Rightarrow> step" where
  "loop_body F st r =
     (case r of
        Inl e \<Rightarrow>
          (if e = ErrClosed then Return
           else Continue st [Stderr (str ''Error reading perf buffer: '' @ Error_text e @ [10])])
      | Inr record \<Rightarrow>
          (if LostSamples record \<noteq> 0 then
             Continue st [Stdout (str ''Lost '' @ fmt_d (uint (LostSamples record)) @ str '' samples'' @ [10])]
           else
             (case binary_Read (RawSample record) of
                Inl e \<Rightarrow> Continue st [Stderr (str ''Failed to parse event: '' @ Error_text e @ [10])]
              | Inr event \<Rightarrow>
                  (if \<not> flag_showAll F \<and> \<not> flag_fdFilter F (FD event) then Continue st []
                   else
                     (let fdType = fdString (FD event) in
                      case slice_to (Data event) (DataLen event) of
                        None \<Rightarrow> Panics
                      | Some d \<Rightarrow>
                          (let dataStr = formatData d in
                           if flag_skipBinary F \<and> \<not> isPrintable d then Continue st []
                           else if flag_suppressRepeats F
                                   \<and> (case lastEvent st of
                                         None \<Rightarrow> False
                                       | Some le \<Rightarrow> FD le = FD event \<and> lastDataStr st = dataStr)
                             then Continue (st\<lparr>repeatCount := repeatCount st + 1\<rparr>) []
                           else
                             (let line = Stdout (str ''[PID '' @ fmt_d (uint (PID event)) @ str '', ''
                                           @ fdType @ str ''] '' @ dataStr @ [10]);
                                  saved = \<lparr>lastEvent = Some event, lastDataStr = dataStr,
                                            repeatCount = repeatCount st\<rparr>
                              in if 0 < sint (repeatCount st) then
                                   (case lastEvent st of
                                      None \<Rightarrow> Panics
                                    | Some le \<Rightarrow>
                                        Continue (saved\<lparr>repeatCount := 0\<rparr>)
                                          [Stdout (str ''[PID '' @ fmt_d (uint (PID le)) @ str '', ''
                                             @ fdString (FD le) @ str ''] Last message repeated ''
                                             @ fmt_d (sint (repeatCount st)) @ str '' times'' @ [10]),
                                           line])
                                 else Continue saved [line])))))))"

text \<open>
  The loop of the goroutine over the results of the successive \<open>Read\<close> calls. It ends when
  \<open>Read\<close> gives the error \<open>perf.ErrClosed\<close> itself and when the context is cancelled, which is
  the end of the list: it returns, and writes nothing more.
\<close>

datatype ending = Stopped | Crashes

fun event_loop :: "flags \<Rightarrow> loop_state \<Rightarrow> (error + perf_Record) list \<Rightarrow> written list \<times> ending" where
  "event_loop F st [] = ([], Stopped)"
| "event_loop F st (r # rs) =
     (case loop_body F st r of
        Return \<Rightarrow> ([], Stopped)
      | Panics \<Rightarrow> ([], Crashes)
      | Continue st' outs \<Rightarrow> (let (more, e) = event_loop F st' rs in (outs @ more, e)))"

section \<open>The properties as the specification words them\<close>

text \<open>A byte that counts towards the printable ratio: printable, or newline, carriage return
  or tab.\<close>

definition is_text_byte :: "byte \<Rightarrow> bool" where
  "is_text_byte b = (b = 10 \<or> b = 13 \<or> b = 9 \<or> unicode_IsPrint b)"

text \<open>The escaped text line of a payload: the bytes before the first null byte, with newline,
  carriage return and tab each written as a backslash and a letter, every other byte as it is.\<close>

definition escape_byte :: "byte \<Rightarrow> byte list" where
  "escape_byte b = (if b = 10 then [92, 110] else if b = 13 then [92, 114] else if b = 9 then [92, 116] else [b])"

definition escaped_text :: "byte list \<Rightarrow> byte list" where
  "escaped_text d = concat (map escape_byte (takeWhile (\<lambda>b. b \<noteq> 0) d))"

section \<open>Lines and concrete inputs\<close>

text \<open>The two lines the non-interactive consumer prints: an event, and the summary of
  repeats.\<close>

definition event_line :: "bpfWriteEvent \<Rightarrow> byte list \<Rightarrow> written" where
  "event_line ev dataStr =
     Stdout (str ''[PID '' @ fmt_d (uint (PID ev)) @ str '', '' @ fdString (FD ev) @ str ''] ''
             @ dataStr @ [10])"

definition repeat_line :: "bpfWriteEvent \<Rightarrow> int \<Rightarrow> written" where
  "repeat_line le n =
     Stdout (str ''[PID '' @ fmt_d (uint (PID le)) @ str '', '' @ fdString (FD le)
             @ str ''] Last message repeated '' @ fmt_d n @ str '' times'' @ [10])"

text \<open>
  Concrete inputs for evaluating the consumers: the record the capture program publishes
  for a write of the bytes \<open>s\<close> by pid \<open>p\<close> to descriptor \<open>f\<close>, the struct the decoder reads
  from it, and the perf record that carries it; flags with repeat suppression on; the
  initial model of the interactive consumer over the stand-in library.
\<close>

definition captured :: "u32 \<Rightarrow> u32 \<Rightarrow> byte list \<Rightarrow> write_event_t" where
  "captured p f s =
     \<lparr>pid = p, fd = f, data = take 240 (s @ replicate 240 0), data_len = of_nat (min (length s) 240)\<rparr>"

definition decoded :: "u32 \<Rightarrow> u32 \<Rightarrow> byte list \<Rightarrow> bpfWriteEvent" where
  "decoded p f s =
     \<lparr>PID = p, FD = f, Data = take 240 (s @ replicate 240 0), DataLen = of_nat (min (length s) 240)\<rparr>"

definition sample_of :: "u32 \<Rightarrow> u32 \<Rightarrow> byte list \<Rightarrow> perf_Record" where
  "sample_of p f s = \<lparr>LostSamples = 0, RawSample = encode_write_event (captured p f s)\<rparr>"

definition demo_flags :: flags where
  "demo_flags = \<lparr>flag_showAll = True, flag_fdFilter = (\<lambda>f. False), flag_suppressRepeats = True,
                  flag_skipBinary = False\<rparr>"

definition demo_model :: "(byte list, byte list, byte list) tuiModel" where
  "demo_model = newTUIModel demo_lib"

section \<open>Properties of the capture program and the wire format\<close>

lemma length_read_user_bytes: "read_user_bytes mem a n = Some bs \<Longrightarrow> length bs = n"
  by (induction n arbitrary: a bs) (auto split: option.splits)

lemma length_bpf_probe_read_user:
  "sz \<le> length dst \<Longrightarrow> length (bpf_probe_read_user dst sz mem src) = length dst"
  by (auto simp: bpf_probe_read_user_def length_read_user_bytes split: option.splits)

lemma Uint32_PutUint32: "Uint32 (PutUint32 v) = v"
  unfolding Uint32_def PutUint32_def
  apply simp
  apply (rule bit_word_eqI)
  subgoal for n
    apply (cases "n < 8"; cases "n < 16"; cases "n < 24")
           apply (auto simp add: bit_simps)
    done
  done

lemma length_PutUint32: "length (PutUint32 v) = 4"
  by (simp add: PutUint32_def)

lemma PutUint32_neq_Nil: "PutUint32 v \<noteq> []"
  by (simp add: PutUint32_def)

lemma binary_Read_encode:
  "length (data e) = 240 \<Longrightarrow>
   binary_Read (encode_write_event e) = Inr \<lparr>PID = pid e, FD = fd e, Data = data e, DataLen = data_len e\<rparr>"
  by (simp add: binary_Read_def encode_write_event_def length_PutUint32 Uint32_PutUint32 PutUint32_neq_Nil)

text \<open>The clamp of lines 46-49: the 64-bit count, cut to the window and stored in 32 bits.\<close>

lemma unat_clamp:
  fixes c :: u64
  shows "unat (ucast (if c > 240 then 240 else c) :: u32) = min (unat c) 240"
proof (cases "c > 240")
  case True
  then have "240 < unat c" by (simp add: word_less_nat_alt)
  with True show ?thesis by simp
next
  case False
  then have le: "unat c \<le> 240" by (simp add: word_less_nat_alt not_less)
  then have "take_bit 32 (unat c) = unat c"
    by (intro take_bit_nat_eq_self) simp
  with False le show ?thesis by (simp add: unsigned_ucast_eq min_def)
qed

text \<open>
  Claim C1. Whenever the capture program runs for a watched pid with count argument \<open>C\<close>, it
  hands a record to the output helper, and that record has \<open>data_len = min C 240\<close>, hence
  \<open>data_len \<le> 240\<close>; its data array keeps its 240 bytes; a zero count gives \<open>data_len = 0\<close>
  and an empty payload.
\<close>

theorem trace_write_data_len:
  assumes "target_pid (ucast (drop_bit 32 pid_tgid)) = Some w"
  shows "\<exists>ev. trace_write target_pid pid_tgid ctx mem = Some ev
            \<and> unat (data_len ev) = min (unat (arg_count ctx)) 240
            \<and> unat (data_len ev) \<le> 240
            \<and> length (data ev) = 240
            \<and> (arg_count ctx = 0 \<longrightarrow> data_len ev = 0 \<and> take (unat (data_len ev)) (data ev) = [])"
proof -
  let ?c = "if arg_count ctx > 240 then 240 else arg_count ctx"
  have c_le: "unat ?c \<le> 240" by (simp add: word_less_nat_alt not_less)
  have len: "length (bpf_probe_read_user (replicate 240 0) (unat ?c) mem (arg_buf ctx)) = 240"
    using c_le by (simp only: length_bpf_probe_read_user length_replicate)
  show ?thesis
    using assms unat_clamp [of "arg_count ctx"] len
    by (auto simp add: trace_write_def Let_def)
qed

theorem trace_write_data_len_witness:
  "\<exists>ev. trace_write [7 \<mapsto> 7] 0x700000007 \<lparr>arg_fd = 1, arg_buf = 4096, arg_count = 1000\<rparr> (\<lambda>a. Some 65) = Some ev
      \<and> unat (data_len ev) = 240 \<and> length (data ev) = 240"
  using trace_write_data_len [where target_pid = "[7 \<mapsto> 7]" and pid_tgid = "0x700000007" and w = 7
      and ctx = "\<lparr>arg_fd = 1, arg_buf = 4096, arg_count = 1000\<rparr>" and mem = "\<lambda>a. Some 65"]
  by auto

text \<open>
  Claim C2. A capture record with \<open>data_len = N \<le> 240\<close>, laid out as the fixed little-endian
  struct and decoded by the consumer, gives an event with the same pid and fd whose payload
  has length \<open>N\<close> and is the first \<open>N\<close> bytes of the data field.
\<close>

theorem decode_encode_roundtrip:
  assumes "length (data e) = 240" and "unat (data_len e) \<le> 240"
  shows "decode_sample (encode_write_event e) =
           Done \<lparr>Event_PID = pid e, Event_FD = fd e, Payload = take (unat (data_len e)) (data e)\<rparr>
         \<and> length (take (unat (data_len e)) (data e)) = unat (data_len e)"
  using assms by (simp add: decode_sample_def binary_Read_encode make_Event_def slice_to_def)

theorem decode_encode_roundtrip_witness:
  "decode_sample (encode_write_event
      \<lparr>pid = 7, fd = 1, data = [104, 105, 10] @ replicate 237 0, data_len = 3\<rparr>) =
     Done \<lparr>Event_PID = 7, Event_FD = 1, Payload = [104, 105, 10]\<rparr>"
  using decode_encode_roundtrip
    [of "\<lparr>pid = 7, fd = 1, data = [104, 105, 10] @ replicate 237 0, data_len = 3\<rparr>"]
  by simp

text \<open>
  Claim C10. The decoder slices the 240-byte data array to \<open>data_len\<close> without checking it:
  on a sample of the full layout the slice is in bounds exactly when \<open>data_len \<le> 240\<close>, and
  a larger \<open>data_len\<close> is a run-time panic, not a returned error, in \<open>pollNextEvent\<close> and,
  for a record that passes the descriptor filter, in the loop of the non-interactive consumer.
\<close>

theorem slice_bound_necessary:
  assumes "252 \<le> length raw"
  shows "decode_sample raw =
           (if unat (Uint32 (take 4 (drop 248 raw))) \<le> 240
            then Done \<lparr>Event_PID = Uint32 (take 4 raw), Event_FD = Uint32 (take 4 (drop 4 raw)),
                        Payload = take (unat (Uint32 (take 4 (drop 248 raw)))) (take 240 (drop 8 raw))\<rparr>
            else Panicked)
         \<and> (240 < unat (Uint32 (take 4 (drop 248 raw)))
              \<longrightarrow> pollNextEvent L m (Inr raw # rd) = (Crashed, rd)
                  \<and> (flag_showAll F \<or> flag_fdFilter F (Uint32 (take 4 (drop 4 raw)))
                       \<longrightarrow> loop_body F st (Inr \<lparr>LostSamples = 0, RawSample = raw\<rparr>) = Panics))"
proof -
  have d: "decode_sample raw =
           (if unat (Uint32 (take 4 (drop 248 raw))) \<le> 240
            then Done \<lparr>Event_PID = Uint32 (take 4 raw), Event_FD = Uint32 (take 4 (drop 4 raw)),
                        Payload = take (unat (Uint32 (take 4 (drop 248 raw)))) (take 240 (drop 8 raw))\<rparr>
            else Panicked)"
    using assms by (auto simp add: decode_sample_def binary_Read_def make_Event_def slice_to_def)
  have p: "pollNextEvent L m (Inr raw # rd) = (Crashed, rd)"
    if "240 < unat (Uint32 (take 4 (drop 248 raw)))"
    using that d by simp
  have l: "loop_body F st (Inr \<lparr>LostSamples = 0, RawSample = raw\<rparr>) = Panics"
    if "240 < unat (Uint32 (take 4 (drop 248 raw)))"
      and "flag_showAll F \<or> flag_fdFilter F (Uint32 (take 4 (drop 4 raw)))"
    using that assms by (auto simp add: loop_body_def binary_Read_def slice_to_def)
  from d p l show ?thesis by blast
qed

theorem slice_bound_necessary_witness:
  "decode_sample (replicate 248 0 @ [241, 0, 0, 0]) = Panicked
   \<and> pollNextEvent demo_lib demo_model [Inr (replicate 248 0 @ [241, 0, 0, 0])] = (Crashed, [])
   \<and> loop_body demo_flags initial_state (Inr \<lparr>LostSamples = 0, RawSample = replicate 248 0 @ [241, 0, 0, 0]\<rparr>)
       = Panics
   \<and> decode_sample (replicate 248 0 @ [240, 0, 0, 0]) =
       Done \<lparr>Event_PID = 0, Event_FD = 0, Payload = replicate 240 0\<rparr>"
  using slice_bound_necessary [of "replicate 248 0 @ [241, 0, 0, 0]" demo_lib demo_model "[]" demo_flags initial_state]
    slice_bound_necessary [of "replicate 248 0 @ [240, 0, 0, 0]"]
  by (simp add: Uint32_def demo_flags_def)

section \<open>Binary64 rounding\<close>

lemma f64_scale_down_small: "x < 2 ^ 53 \<Longrightarrow> f64_scale_down k x s = (x, s)"
  by (cases k) auto

lemma f64_scale_up_value: "f64_scale_up k x s = (z, t) \<Longrightarrow> z * t = x * s"
  by (induction k arbitrary: x s) (auto split: if_splits)

lemma f64_scale_up_Ints: "x \<in> \<int> \<Longrightarrow> f64_scale_up k x s = (z, t) \<Longrightarrow> z \<in> \<int>"
proof (induction k arbitrary: x s)
  case 0
  then show ?case by simp
next
  case (Suc k)
  show ?case
  proof (cases "x < 2 ^ 52")
    case True
    with Suc.prems have "f64_scale_up k (x * 2) (s / 2) = (z, t)" by simp
    moreover have "x * 2 \<in> \<int>" using Suc.prems(1) by (intro Ints_mult) simp_all
    ultimately show ?thesis by (rule Suc.IH [rotated])
  next
    case False
    with Suc.prems show ?thesis by simp
  qed
qed

lemma f64_scale_up_scale: "0 \<le> s \<Longrightarrow> f64_scale_up k x s = (z, t) \<Longrightarrow> 0 \<le> t \<and> t \<le> s"
proof (induction k arbitrary: x s)
  case 0
  then show ?case by simp
next
  case (Suc k)
  show ?case
  proof (cases "x < 2 ^ 52")
    case True
    with Suc.prems have "f64_scale_up k (x * 2) (s / 2) = (z, t)" by simp
    from Suc.IH [OF _ this] Suc.prems(1) show ?thesis by simp
  next
    case False
    with Suc.prems show ?thesis by simp
  qed
qed

lemma f64_scale_up_exact:
  "2 ^ 52 \<le> x * 2 ^ k \<Longrightarrow> x * 2 ^ k < 2 ^ 53 \<Longrightarrow> f64_scale_up (k + j) x s = (x * 2 ^ k, s / 2 ^ k)"
proof (induction k arbitrary: x s)
  case 0
  then show ?case by (cases j) auto
next
  case (Suc k)
  have "x < 2 ^ 52"
  proof (rule ccontr)
    assume "\<not> x < 2 ^ 52"
    then have "2 ^ 52 \<le> x" by simp
    moreover have "(2::rat) \<le> 2 ^ Suc k" by (simp add: self_le_power)
    ultimately have "2 ^ 52 * 2 \<le> x * 2 ^ Suc k"
      by (intro mult_mono) auto
    with Suc.prems(2) show False by simp
  qed
  moreover have "f64_scale_up (k + j) (x * 2) (s / 2) = (x * 2 * 2 ^ k, s / 2 / 2 ^ k)"
    using Suc.prems by (intro Suc.IH) (simp_all add: mult.assoc)
  ultimately show ?case by (simp add: mult.assoc)
qed

lemma round_half_even_of_int: "round_half_even (of_int i) = i"
  by (simp add: round_half_even_def)

lemma round_half_even_le: "x < of_int m + 1 / 2 \<Longrightarrow> round_half_even x \<le> m"
proof -
  assume a: "x < of_int m + 1 / 2"
  then have "x < of_int (m + 1)" by simp
  then have fl: "\<lfloor>x\<rfloor> \<le> m" by (simp add: floor_less_iff [symmetric] del: of_int_add)
  show ?thesis
  proof (cases "\<lfloor>x\<rfloor> = m")
    case True
    with a have "x - of_int \<lfloor>x\<rfloor> < 1 / 2" by simp
    then show ?thesis using True by (simp add: round_half_even_def Let_def)
  next
    case False
    with fl have "\<lfloor>x\<rfloor> + 1 \<le> m" by simp
    then show ?thesis by (simp add: round_half_even_def Let_def)
  qed
qed

lemma round_half_even_ge: "of_int m + 1 / 2 < x \<Longrightarrow> m + 1 \<le> round_half_even x"
proof -
  assume a: "of_int m + 1 / 2 < x"
  then have "of_int m \<le> x" by simp
  then have fl: "m \<le> \<lfloor>x\<rfloor>" by (simp add: le_floor_iff)
  show ?thesis
  proof (cases "\<lfloor>x\<rfloor> = m")
    case True
    with a have "1 / 2 < x - of_int \<lfloor>x\<rfloor>" by simp
    then show ?thesis using True by (simp add: round_half_even_def Let_def)
  next
    case False
    with fl have "m + 1 \<le> \<lfloor>x\<rfloor>" by simp
    then show ?thesis by (simp add: round_half_even_def Let_def)
  qed
qed

lemma round_half_even_upper: "of_int (round_half_even x) \<le> x + 1 / 2"
proof -
  have fl: "of_int \<lfloor>x\<rfloor> \<le> x" by simp
  show ?thesis
  proof (cases "x - of_int \<lfloor>x\<rfloor> < 1 / 2")
    case True
    then have "round_half_even x = \<lfloor>x\<rfloor>" by (simp add: round_half_even_def Let_def)
    with fl show ?thesis by linarith
  next
    case False
    then have "of_int \<lfloor>x\<rfloor> + 1 \<le> x + 1 / 2" by simp
    moreover have "round_half_even x \<le> \<lfloor>x\<rfloor> + 1" by (simp add: round_half_even_def Let_def)
    then have "(of_int (round_half_even x) :: rat) \<le> of_int (\<lfloor>x\<rfloor> + 1)" by (simp only: of_int_le_iff)
    ultimately show ?thesis by simp
  qed
qed

lemma f64_round_pos_int:
  assumes "0 \<le> i" and "i < 2 ^ 53"
  shows "f64_round_pos (of_int i) = of_int i"
proof -
  have small: "(of_int i :: rat) < 2 ^ 53"
    using assms(2) by (metis of_int_less_iff of_int_numeral of_int_power)
  obtain z t where zt: "f64_scale_up 1074 (of_int i) 1 = (z, t)"
    by (cases "f64_scale_up 1074 (of_int i :: rat) 1") 
  from f64_scale_up_Ints [OF _ zt] obtain j where z: "z = of_int j"
    by (auto elim: Ints_cases)
  from f64_scale_up_value [OF zt] have "z * t = of_int i" by simp
  then show ?thesis
    by (simp add: f64_round_pos_def f64_scale_down_small [OF small] zt z round_half_even_of_int)
qed

lemma float64_of_int_exact: "0 \<le> i \<Longrightarrow> i < 2 ^ 53 \<Longrightarrow> float64_of_int i = of_int i"
  by (simp add: float64_of_int_def f64_round_def f64_round_pos_int)

lemma f64_round_pos_unit:
  assumes "1 / 2 \<le> x" and "x < 1"
  shows "f64_round_pos x = of_int (round_half_even (x * 2 ^ 53)) / 2 ^ 53"
proof -
  have small: "x < 2 ^ 53" using assms(2) by simp
  have "f64_scale_up (53 + 1021) x 1 = (x * 2 ^ 53, 1 / 2 ^ 53)"
    using assms by (intro f64_scale_up_exact) simp_all
  then have "f64_scale_up 1074 x 1 = (x * 2 ^ 53, 1 / 2 ^ 53)" by simp
  then show ?thesis
    by (simp add: f64_round_pos_def f64_scale_down_small [OF small])
qed

lemma f64_round_pos_small:
  assumes "0 \<le> x" and "x < 1 / 2"
  shows "f64_round_pos x \<le> 3 / 4"
proof -
  have small: "x < 2 ^ 53" and small': "x < 2 ^ 52" using assms(2) by simp_all
  obtain z t where zt: "f64_scale_up 1073 (x * 2) (1 / 2) = (z, t)"
    by (cases "f64_scale_up 1073 (x * 2) (1 / 2)")
  have "f64_scale_up (Suc 1073) x 1 = f64_scale_up 1073 (x * 2) (1 / 2)"
    using small' by (simp only: f64_scale_up.simps if_True)
  moreover have "Suc 1073 = 1074" by simp
  ultimately have zt': "f64_scale_up 1074 x 1 = (z, t)" using zt by (simp only:)
  from f64_scale_up_value [OF zt] have val: "z * t = x" by simp
  from f64_scale_up_scale [OF _ zt] have t: "0 \<le> t" "t \<le> 1 / 2" by simp_all
  have "f64_round_pos x = of_int (round_half_even z) * t"
    by (simp add: f64_round_pos_def f64_scale_down_small [OF small] zt')
  also have "\<dots> \<le> (z + 1 / 2) * t"
    using round_half_even_upper [of z] t(1) by (intro mult_right_mono) simp_all
  also have "\<dots> = x + t / 2" using val by (simp add: algebra_simps)
  also have "\<dots> \<le> 3 / 4" using assms(2) t(2) by simp
  finally show ?thesis .
qed

lemma round_half_even_nine_tenths: "round_half_even (9 / 10 * 2 ^ 53) = 8106479329266893"
proof -
  have "round_half_even (9 / 10 * 2 ^ 53) \<le> 8106479329266893"
    by (rule round_half_even_le) simp
  moreover have "8106479329266892 + 1 \<le> round_half_even (9 / 10 * 2 ^ 53)"
    by (rule round_half_even_ge) simp
  ultimately show ?thesis by linarith
qed

lemma f64_round_nine_tenths: "f64_round (9 / 10) = 8106479329266893 / 2 ^ 53"
proof -
  have "f64_round (9 / 10) = f64_round_pos (9 / 10)"
    by (simp add: f64_round_def)
  also have "\<dots> = of_int (round_half_even (9 / 10 * 2 ^ 53)) / 2 ^ 53"
    by (rule f64_round_pos_unit) simp_all
  also have "\<dots> = 8106479329266893 / 2 ^ 53"
    by (simp only: round_half_even_nine_tenths of_int_numeral)
  finally show ?thesis .
qed

lemma f64_round_one: "f64_round 1 = 1"
  using f64_round_pos_int [of 1] by (simp add: f64_round_def)

lemma printableCount_loop_eq:
  "printableCount_loop d c =
     c + int (length (filter (\<lambda>b. b = 10 \<or> b = 13 \<or> b = 9 \<or> unicode_IsPrint b) d))"
  by (induction d arbitrary: c) auto

text \<open>The comparison of \<open>isPrintable\<close> on exact operands: the rounded quotient of \<open>p\<close> by \<open>n\<close> exceeds
  the constant 0.9 exactly when the true quotient exceeds nine tenths.\<close>

lemma f64_ratio_threshold:
  assumes n: "0 < n" "n < 2 ^ 50" and p: "0 \<le> p" "p \<le> n"
  shows "f64_round (9 / 10) < f64_div (of_int p) (of_int n) \<longleftrightarrow> 9 * n < 10 * p"
proof -
  let ?q = "of_int p / of_int n :: rat"
  let ?M = "8106479329266893 :: int"
  have npos: "(0::rat) < of_int n" using n(1) by simp
  have q0: "0 \<le> ?q" using p(1) n(1) by simp
  have q1: "?q \<le> 1" using p(2) npos by simp
  have rnd: "f64_div (of_int p) (of_int n) = f64_round_pos ?q"
    using q0 by (simp add: f64_div_def f64_round_def)
  consider (one) "p = n" | (mid) "p < n" "1 / 2 \<le> ?q" | (low) "?q < 1 / 2"
    using p(2) by fastforce
  then show ?thesis
  proof cases
    case one
    then have q: "?q = 1" using npos by simp
    have "f64_div (of_int p) (of_int n) = 1"
      unfolding rnd q using f64_round_one by (simp add: f64_round_def)
    then show ?thesis using one n(1) by (simp add: f64_round_nine_tenths)
  next
    case mid
    have "?q < 1" using mid(1) npos by simp
    then have val: "f64_round_pos ?q = of_int (round_half_even (?q * 2 ^ 53)) / 2 ^ 53"
      using mid(2) by (intro f64_round_pos_unit)
    have cmp: "f64_round (9 / 10) < f64_div (of_int p) (of_int n) \<longleftrightarrow> ?M < round_half_even (?q * 2 ^ 53)"
      unfolding rnd val f64_round_nine_tenths
      by (simp add: divide_less_cancel del: of_int_numeral flip: of_int_numeral [where ?'a = rat])
    show ?thesis
    proof (cases "9 * n < 10 * p")
      case True
      then have "9 * n + 1 \<le> 10 * p" by simp
      then have "(of_int (9 * n + 1) :: rat) \<le> of_int (10 * p)" by (simp only: of_int_le_iff)
      then have "9 * of_int n + 1 \<le> 10 * (of_int p :: rat)" by simp
      then have "(9 * of_int n + 1) / (10 * of_int n) \<le> (10 * of_int p) / (10 * of_int n :: rat)"
        using npos by (intro divide_right_mono) simp_all
      moreover have "(10 * of_int p) / (10 * of_int n :: rat) = ?q" by simp
      moreover have "(9 * of_int n + 1) / (10 * of_int n) = 9 / 10 + 1 / (10 * of_int n :: rat)"
        using npos by (simp add: add_divide_distrib)
      ultimately have ge: "9 / 10 + 1 / (10 * of_int n) \<le> ?q" by (simp only:)
      have "(of_int n :: rat) < of_int (2 ^ 50)" using n(2) by (simp only: of_int_less_iff)
      then have nn: "(of_int n :: rat) < 2 ^ 50" by simp
      then have "1 / 2 ^ 50 < 1 / (of_int n :: rat)"
        using npos by (simp add: field_simps)
      then have "1 / (10 * 2 ^ 50) < 1 / (10 * of_int n :: rat)"
        by simp
      with ge have "9 / 10 + 1 / (10 * 2 ^ 50) < ?q" by linarith
      then have "(9 / 10 + 1 / (10 * 2 ^ 50)) * 2 ^ 53 < ?q * 2 ^ 53"
        by (simp only: mult_less_cancel_right_pos zero_less_power zero_less_numeral)
      moreover have "of_int ?M + 1 / 2 < (9 / 10 + 1 / (10 * 2 ^ 50)) * (2 ^ 53 :: rat)" by simp
      ultimately have "of_int ?M + 1 / 2 < ?q * 2 ^ 53" by linarith
      from round_half_even_ge [OF this] show ?thesis using True cmp by simp
    next
      case False
      then have "10 * p \<le> 9 * n" by simp
      then have "(of_int (10 * p) :: rat) \<le> of_int (9 * n)" by (simp only: of_int_le_iff)
      then have "10 * (of_int p :: rat) \<le> 9 * of_int n" by simp
      then have "?q \<le> 9 / 10" using npos by (simp add: field_simps)
      then have "?q * 2 ^ 53 \<le> 9 / 10 * 2 ^ 53"
        by (simp only: mult_le_cancel_right_pos zero_less_power zero_less_numeral)
      moreover have "9 / 10 * (2 ^ 53 :: rat) < of_int ?M + 1 / 2" by simp
      ultimately have "?q * 2 ^ 53 < of_int ?M + 1 / 2" by linarith
      from round_half_even_le [OF this] show ?thesis using False cmp by simp
    qed
  next
    case low
    from f64_round_pos_small [OF q0 low] have "f64_div (of_int p) (of_int n) \<le> 3 / 4"
      by (simp add: rnd)
    moreover have "(3 / 4 :: rat) < 8106479329266893 / 2 ^ 53" by simp
    ultimately have "\<not> f64_round (9 / 10) < f64_div (of_int p) (of_int n)"
      by (simp add: f64_round_nine_tenths)
    moreover have "2 * (of_int p :: rat) < of_int n" using low npos by (simp add: field_simps)
    then have "(of_int (2 * p) :: rat) < of_int n" by simp
    then have "2 * p < n" by (simp only: of_int_less_iff)
    then have "\<not> 9 * n < 10 * p" using n(1) by simp
    ultimately show ?thesis by simp
  qed
qed

text \<open>The classification on the byte counts: the float comparison decides the integer one.\<close>

lemma isPrintable_count:
  assumes "d \<noteq> []" and "length d < 2 ^ 50"
  shows "isPrintable d \<longleftrightarrow> 9 * length d < 10 * length (filter is_text_byte d)"
proof -
  let ?p = "int (length (filter is_text_byte d))"
  let ?n = "int (length d)"
  have cnt: "printableCount_loop d 0 = ?p"
    by (simp add: printableCount_loop_eq is_text_byte_def [abs_def])
  have n: "0 < ?n" "?n < 2 ^ 50" using assms by simp_all
  have p: "0 \<le> ?p" "?p \<le> ?n" by simp_all
  have "(2::int) ^ 50 < 2 ^ 53" by simp
  with n(2) p(2) have "?p < 2 ^ 53" "?n < 2 ^ 53" by linarith+
  then have ex: "float64_of_int ?p = of_int ?p" "float64_of_int ?n = of_int ?n"
    using n(1) p(1) by (simp_all only: float64_of_int_exact order_less_imp_le)
  have "isPrintable d \<longleftrightarrow> f64_round (9 / 10) < f64_div (of_int ?p) (of_int ?n)"
    using assms(1) by (simp add: isPrintable_def cnt ex del: of_int_of_nat_eq)
  also have "\<dots> \<longleftrightarrow> 9 * ?n < 10 * ?p"
    by (rule f64_ratio_threshold [OF n p])
  also have "\<dots> \<longleftrightarrow> 9 * length d < 10 * length (filter is_text_byte d)"
    by linarith
  finally show ?thesis .
qed

text \<open>
  Claim C3. The classification of a non-empty payload (of fewer than 2^50 bytes, which the
  240-byte window is far below) is exact at the threshold: it is text exactly when the
  fraction of text bytes is strictly greater than nine tenths. So the bytes 0x01..0x09 are
  binary, "Hello, World!" followed by 0x01 is text, and ten bytes of which nine are printable
  are binary.
\<close>

theorem isPrintable_threshold:
  assumes "d \<noteq> []" and "length d < 2 ^ 50"
  shows "isPrintable d \<longleftrightarrow> (9 / 10 :: rat) < of_nat (length (filter is_text_byte d)) / of_nat (length d)"
proof -
  let ?p = "length (filter is_text_byte d)"
  let ?n = "length d"
  have n: "0 < ?n" using assms(1) by simp
  have "isPrintable d \<longleftrightarrow> 9 * ?n < 10 * ?p"
    by (rule isPrintable_count [OF assms])
  also have "\<dots> \<longleftrightarrow> (of_nat (9 * ?n) :: rat) < of_nat (10 * ?p)"
    by (simp only: of_nat_less_iff)
  also have "\<dots> \<longleftrightarrow> (9 / 10 :: rat) < of_nat ?p / of_nat ?n"
    using n by (simp add: field_simps)
  finally show ?thesis .
qed

theorem isPrintable_threshold_witness:
  "\<not> isPrintable [1, 2, 3, 4, 5, 6, 7, 8, 9]
   \<and> isPrintable (str ''Hello, World!'' @ [1])
   \<and> \<not> isPrintable (str ''123456789'' @ [1])"
  using isPrintable_threshold [of "[1, 2, 3, 4, 5, 6, 7, 8, 9]"]
    isPrintable_threshold [of "str ''Hello, World!'' @ [1]"]
    isPrintable_threshold [of "str ''123456789'' @ [1]"]
  by (simp add: str_def is_text_byte_def unicode_IsPrint_def word_le_nat_alt)

section \<open>Properties of the formatter\<close>

lemma IndexByte_eq:
  "IndexByte d c = (if c \<in> set d then int (length (takeWhile (\<lambda>x. x \<noteq> c) d)) else - 1)"
  by (induction d) (auto simp add: Let_def)

lemma TrimRight_no_null: "0 \<notin> set s \<Longrightarrow> TrimRight s [0] = s"
proof -
  assume a: "0 \<notin> set s"
  have "dropWhile (\<lambda>b. b \<in> set [0]) (rev s) = rev s"
  proof (cases "rev s")
    case Nil
    then show ?thesis by simp
  next
    case (Cons x xs)
    then have "x \<in> set s" by (metis list.set_intros(1) set_rev)
    with a have "x \<noteq> 0" by auto
    with Cons show ?thesis by simp
  qed
  then show ?thesis by (simp add: TrimRight_def)
qed

lemma ReplaceAll_single:
  "ReplaceAll s [c] new = concat (map (\<lambda>b. if b = c then new else [b]) s)"
  by (induction s) auto

lemma escape_steps:
  "concat (map (\<lambda>b. if b = 9 then [92, 116] else [b])
     (concat (map (\<lambda>b. if b = 13 then [92, 114] else [b])
        (concat (map (\<lambda>b. if b = 10 then [92, 110] else [b]) s))))) =
   concat (map escape_byte s)"
  by (induction s) (auto simp add: escape_byte_def)

lemma formatData_isPrintable_iff:
  "formatData_isPrintable d \<longleftrightarrow> (\<forall>b\<in>set d. b = 0 \<or> is_text_byte b)"
  by (induction d) (auto simp add: is_text_byte_def)

lemma formatData_text:
  assumes "d \<noteq> []" and "formatData_isPrintable d"
  shows "formatData d = escaped_text d"
proof -
  let ?t = "takeWhile (\<lambda>b. b \<noteq> 0) d"
  have cut: "(if 0 \<le> IndexByte d 0 then take (nat (IndexByte d 0)) d else d) = ?t"
  proof (cases "0 \<in> set d")
    case True
    then show ?thesis
      by (simp add: IndexByte_eq takeWhile_eq_take [symmetric])
  next
    case False
    then have tw: "?t = d" by (auto simp add: takeWhile_eq_all_conv)
    show ?thesis unfolding tw using False by (simp add: IndexByte_eq)
  qed
  have "0 \<notin> set ?t" by (auto dest: set_takeWhileD)
  then have trim: "TrimRight ?t [0] = ?t" by (rule TrimRight_no_null)
  show ?thesis
    using assms
    by (simp add: formatData_def Let_def cut trim ReplaceAll_single escape_steps escaped_text_def)
qed

lemma formatData_binary:
  assumes "\<not> formatData_isPrintable d"
  shows "formatData d =
           (if 32 < length d
            then hex_Dump (take 32 d) @ str ''... ('' @ fmt_d (int (length d)) @ str '' bytes total)''
            else hex_Dump d)"
proof -
  from assms have "d \<noteq> []" by auto
  with assms show ?thesis by (simp add: formatData_def Let_def)
qed

lemma escape_byte_clean: "set (escape_byte b) \<inter> {10, 13, 9} = {}"
  by (simp add: escape_byte_def)

lemma escaped_text_clean: "set (escaped_text d) \<inter> {0, 10, 13, 9} = {}"
proof -
  have "c \<in> set (escaped_text d) \<Longrightarrow> c \<notin> {0, 10, 13, 9}" for c
  proof -
    assume "c \<in> set (escaped_text d)"
    then obtain b where b: "b \<in> set (takeWhile (\<lambda>b. b \<noteq> 0) d)" "c \<in> set (escape_byte b)"
      by (auto simp add: escaped_text_def)
    from b(1) have "b \<noteq> 0" by (auto dest: set_takeWhileD)
    with b(2) show ?thesis by (auto simp add: escape_byte_def split: if_splits)
  qed
  then show ?thesis by blast
qed

lemma newline_in_hex_Dump: "bs \<noteq> [] \<Longrightarrow> 10 \<in> set (hex_Dump bs)"
  by (simp add: hex_Dump_def hex_Dump_from.simps [of 0 bs] dump_line_def)

lemmas byte_eval = str_def is_text_byte_def unicode_IsPrint_def word_le_nat_alt word_less_nat_alt

text \<open>
  Claim C6. A payload that is formatted as text is rendered as the bytes before its first null
  byte, with every newline, carriage return and tab written as its two-character escape and
  every other byte unchanged; the line holds no null byte and no raw newline, carriage return
  or tab.
\<close>

theorem formatData_text_escapes:
  assumes "d \<noteq> []" and "formatData_isPrintable d"
  shows "formatData d = concat (map escape_byte (takeWhile (\<lambda>b. b \<noteq> 0) d))
         \<and> set (formatData d) \<inter> {0, 10, 13, 9} = {}"
  using formatData_text [OF assms] escaped_text_clean [of d]
  by (simp add: escaped_text_def)

theorem formatData_text_escapes_witness:
  "formatData (str ''Hi'' @ [9] @ str ''you'' @ [10, 0] @ str ''junk'' @ [0, 0]) =
     str ''Hi'' @ [92, 116] @ str ''you'' @ [92, 110]"
  using formatData_text_escapes [of "str ''Hi'' @ [9] @ str ''you'' @ [10, 0] @ str ''junk'' @ [0, 0]"]
  by (simp add: byte_eval escape_byte_def)

text \<open>
  Claim C4, as amended. The formatter decides by its own test and not by the 90 percent ratio:
  a non-empty payload whose every byte is null, printable, newline, carriage return or tab is
  rendered as the escaped text line, which holds no newline byte, while every hex dump holds
  one; any other payload is rendered as a hex dump, of its first 32 bytes only and annotated
  with the total byte count when it is longer than 32 bytes. On a payload without null bytes
  the two tests agree that far: when it classifies as binary it is rendered as a hex dump.
\<close>

theorem formatData_own_test:
  "formatData d =
     (if d = [] then str ''<empty>''
      else if (\<forall>b\<in>set d. b = 0 \<or> is_text_byte b) then escaped_text d
      else if 32 < length d
           then hex_Dump (take 32 d) @ str ''... ('' @ fmt_d (int (length d)) @ str '' bytes total)''
           else hex_Dump d)
   \<and> 10 \<notin> set (escaped_text d)
   \<and> (d \<noteq> [] \<longrightarrow> 10 \<in> set (hex_Dump d) \<and> 10 \<in> set (hex_Dump (take 32 d)))
   \<and> (d \<noteq> [] \<and> length d < 2 ^ 50 \<and> 0 \<notin> set d \<and> \<not> isPrintable d
        \<longrightarrow> \<not> (\<forall>b\<in>set d. b = 0 \<or> is_text_byte b))"
proof (intro conjI impI)
  show "formatData d =
     (if d = [] then str ''<empty>''
      else if (\<forall>b\<in>set d. b = 0 \<or> is_text_byte b) then escaped_text d
      else if 32 < length d
           then hex_Dump (take 32 d) @ str ''... ('' @ fmt_d (int (length d)) @ str '' bytes total)''
           else hex_Dump d)"
  proof (cases "d = []")
    case True
    then show ?thesis by (simp add: formatData_def)
  next
    case False
    show ?thesis
    proof (cases "formatData_isPrintable d")
      case True
      with False formatData_text [OF False True] show ?thesis
        by (simp add: formatData_isPrintable_iff)
    next
      case no: False
      then have "\<not> (\<forall>b\<in>set d. b = 0 \<or> is_text_byte b)"
        by (simp only: formatData_isPrintable_iff not_False_eq_True)
      with False formatData_binary [OF no] show ?thesis
        by (simp only: if_False)
    qed
  qed
next
  show "10 \<notin> set (escaped_text d)" using escaped_text_clean [of d] by auto
next
  assume "d \<noteq> []"
  then show "10 \<in> set (hex_Dump d)" by (rule newline_in_hex_Dump)
next
  assume "d \<noteq> []"
  then have "take 32 d \<noteq> []" by (cases d) simp_all
  then show "10 \<in> set (hex_Dump (take 32 d))" by (rule newline_in_hex_Dump)
next
  assume a: "d \<noteq> [] \<and> length d < 2 ^ 50 \<and> 0 \<notin> set d \<and> \<not> isPrintable d"
  show "\<not> (\<forall>b\<in>set d. b = 0 \<or> is_text_byte b)"
  proof
    assume "\<forall>b\<in>set d. b = 0 \<or> is_text_byte b"
    with a have "\<forall>b\<in>set d. is_text_byte b" by auto
    then have "filter is_text_byte d = d" by (simp add: filter_id_conv)
    with a isPrintable_count [of d] show False by simp
  qed
qed

theorem formatData_own_test_witness:
  "formatData [1, 2, 3, 4] = hex_Dump [1, 2, 3, 4]
   \<and> \<not> isPrintable [1, 2, 3, 4]
   \<and> formatData (replicate 40 1) = hex_Dump (replicate 32 1) @ str ''... (40 bytes total)''"
  using formatData_own_test [of "[1, 2, 3, 4]"] formatData_own_test [of "replicate 40 1"]
    isPrintable_count [of "[1, 2, 3, 4]"]
  by (simp add: byte_eval fmt_d_def digits.simps)

lemma hello_dump:
  "formatData (str ''Hello, World!'' @ [1]) =
     str ''00000000  48 65 6c 6c 6f 2c 20 57  6f 72 6c 64 21 01        |Hello, World!.|'' @ [10]"
proof -
  have no: "\<not> formatData_isPrintable (str ''Hello, World!'' @ [1])" by (simp add: byte_eval)
  show ?thesis
    unfolding formatData_binary [OF no]
    by (simp add: str_def hex_Dump_def hex_Dump_from.simps dump_line_def dump_cell_def hex_Encode_def
        hexdigit_def toChar_def word_less_nat_alt upt_rec)
qed

text \<open>
  Claim C4 as stated fails: "Hello, World!" followed by 0x01 classifies as text (13 of 14
  bytes) and is rendered as a hex dump, and two null bytes classify as binary and are
  rendered as the empty text line.
\<close>

theorem formatData_ratio_counterexample:
  "isPrintable (str ''Hello, World!'' @ [1])
   \<and> formatData (str ''Hello, World!'' @ [1]) =
       str ''00000000  48 65 6c 6c 6f 2c 20 57  6f 72 6c 64 21 01        |Hello, World!.|'' @ [10]
   \<and> formatData (str ''Hello, World!'' @ [1]) \<noteq> escaped_text (str ''Hello, World!'' @ [1])
   \<and> \<not> isPrintable [0, 0]
   \<and> formatData [0, 0] = []"
proof (intro conjI)
  let ?h = "str ''Hello, World!'' @ [1]"
  show "isPrintable ?h"
    using isPrintable_count [of ?h] by (simp add: byte_eval)
  have no: "\<not> formatData_isPrintable ?h" by (simp add: byte_eval)
  from formatData_binary [OF no] have dump: "formatData ?h = hex_Dump ?h"
    by (simp add: str_def)
  show "formatData ?h =
      str ''00000000  48 65 6c 6c 6f 2c 20 57  6f 72 6c 64 21 01        |Hello, World!.|'' @ [10]"
    by (rule hello_dump)
  have "10 \<in> set (hex_Dump ?h)" by (rule newline_in_hex_Dump) simp
  moreover have "10 \<notin> set (escaped_text ?h)" using escaped_text_clean [of ?h] by auto
  ultimately show "formatData ?h \<noteq> escaped_text ?h" using dump by auto
  show "\<not> isPrintable [0, 0]"
    using isPrintable_count [of "[0, 0]"] by (simp add: byte_eval)
  have "formatData_isPrintable [0, 0]" by simp
  from formatData_text [OF _ this] show "formatData [0, 0] = []"
    by (simp add: escaped_text_def)
qed

section \<open>Properties of the interactive consumer\<close>

lemma quits_after_switch: "\<not> quits (snd (after_switch L m msg []))"
  by (simp add: after_switch_def split: prod.splits)

lemma polls_after_switch: "\<not> polls (snd (after_switch L m msg []))"
  by (simp add: after_switch_def split: prod.splits)

lemma filtering_after_switch: "filtering (fst (after_switch L m msg cmds)) = filtering m"
  by (simp add: after_switch_def split: prod.splits)

lemma grepRegex_after_switch: "grepRegex (fst (after_switch L m msg cmds)) = grepRegex m"
  by (simp add: after_switch_def split: prod.splits)

lemma filters_after_switch:
  "showAll (fst (after_switch L m msg cmds)) = showAll m"
  "fdFilter (fst (after_switch L m msg cmds)) = fdFilter m"
  "skipBinary (fst (after_switch L m msg cmds)) = skipBinary m"
  "err (fst (after_switch L m msg cmds)) = err m"
  by (simp_all add: after_switch_def split: prod.splits)

lemma Update_enter:
  "filtering m \<Longrightarrow>
   Update L m (KeyMsg ''enter'') =
     after_switch L
       (m\<lparr>grepRegex := regexp_Compile L (textinput_Value L (input m)),
          filtering := False,
          input := textinput_Blur L (input m)\<rparr>) (KeyMsg ''enter'') []"
  by (simp add: Update_def key_Matches_def keys_Quit_def)

lemma pollNextEvent_no_regex:
  assumes "grepRegex m = None"
    and "decode_sample raw = Done ev"
    and "showAll m \<or> fdFilter m (Event_FD ev)"
    and "\<not> (skipBinary m \<and> \<not> isPrintable (Payload ev))"
  shows "pollNextEvent L m (Inr raw # rd) = (Delivered (EventMsg ev), rd)"
  using assms by auto

text \<open>
  Claim C8. When the operator confirms a draft that is not a valid regular expression, the
  consumer is left with no active regex and in state Normal: the command does not quit, the
  error field is untouched, and every event that passes the descriptor and binary stages is
  delivered, whatever its payload.
\<close>

theorem invalid_pattern_disables_filter:
  assumes "filtering m" and "regexp_Compile L (textinput_Value L (input m)) = None"
  shows "grepRegex (fst (Update L m (KeyMsg ''enter''))) = None
         \<and> state_after (Update L m (KeyMsg ''enter'')) = Normal
         \<and> err (fst (Update L m (KeyMsg ''enter''))) = err m
         \<and> (\<forall>raw rd ev.
               decode_sample raw = Done ev
               \<and> (showAll m \<or> fdFilter m (Event_FD ev))
               \<and> \<not> (skipBinary m \<and> \<not> isPrintable (Payload ev))
               \<longrightarrow> pollNextEvent L (fst (Update L m (KeyMsg ''enter''))) (Inr raw # rd)
                     = (Delivered (EventMsg ev), rd))"
proof -
  let ?m' = "fst (Update L m (KeyMsg ''enter''))"
  have g: "grepRegex ?m' = None"
    using assms by (simp add: Update_enter grepRegex_after_switch)
  have f: "showAll ?m' = showAll m" "fdFilter ?m' = fdFilter m" "skipBinary ?m' = skipBinary m"
    "err ?m' = err m" "filtering ?m' = False"
    using assms(1) by (simp_all add: Update_enter filters_after_switch filtering_after_switch)
  have q: "\<not> quits (snd (Update L m (KeyMsg ''enter'')))"
    using assms(1) by (simp add: Update_enter quits_after_switch)
  have p: "pollNextEvent L ?m' (Inr raw # rd) = (Delivered (EventMsg ev), rd)"
    if "decode_sample raw = Done ev" "showAll m \<or> fdFilter m (Event_FD ev)"
      "\<not> (skipBinary m \<and> \<not> isPrintable (Payload ev))" for raw rd ev
    using that by (intro pollNextEvent_no_regex g) (simp_all add: f)
  show ?thesis
    using g q f p by (simp add: state_after_def)
qed

text \<open>The branch of \<open>pollNextEvent\<close> for an error identical to \<open>ringbuf.ErrClosed\<close> or \<open>io.EOF\<close>
  returns the nil message, on which \<open>Update\<close> neither quits nor polls again. A closed reader
  does not take this branch: the error it returns is wrapped.\<close>

lemma sentinel_branch:
  "(e = ErrClosed \<or> e = EOF \<longrightarrow> pollNextEvent L m (Inl e # rd) = (Delivered NilMsg, rd))
   \<and> state_after (Update L m NilMsg) = state_of m
   \<and> \<not> polls (snd (Update L m NilMsg))"
  by (simp add: Update_def state_after_def state_of_def quits_after_switch polls_after_switch
      filtering_after_switch)



text \<open>
  Claim C5. A raw sample shorter than the 252 bytes of the layout is a decode failure. The
  non-interactive consumer reports it and goes on with its state unchanged; the interactive
  consumer delivers the failure as an error message, and \<open>Update\<close> answers with the quit
  command: there a single malformed record ends the session.
\<close>

theorem short_record_quits_tui:
  assumes "length raw < 252"
  shows "\<exists>e. pollNextEvent L m (Inr raw # rd) = (Delivered (ErrMsg e), rd)
             \<and> state_after (Update L m (ErrMsg e)) = Terminated
             \<and> loop_body F st (Inr \<lparr>LostSamples = 0, RawSample = raw\<rparr>) =
                 Continue st [Stderr (str ''Failed to parse event: '' @ Error_text e @ [10])]"
  using assms
  by (cases "raw = []")
     (simp_all add: decode_sample_def binary_Read_def Update_def state_after_def loop_body_def)

section \<open>Properties of the non-interactive consumer\<close>

lemma sint_of_nat_64: "k < 2 ^ 63 \<Longrightarrow> sint (of_nat k :: 64 word) = int k"
proof -
  assume "k < 2 ^ 63"
  then have "int k < 2 ^ 63" by (metis of_nat_less_iff of_nat_numeral of_nat_power)
  then have "signed_take_bit 63 (int k) = int k"
    by (intro signed_take_bit_int_eq_self) simp_all
  then show ?thesis by (simp add: signed_of_nat)
qed

lemma loop_body_event:
  assumes "flag_suppressRepeats F"
    and "binary_Read raw = Inr ev" and "slice_to (Data ev) (DataLen ev) = Some d"
    and "flag_showAll F \<or> flag_fdFilter F (FD ev)"
    and "\<not> (flag_skipBinary F \<and> \<not> isPrintable d)"
    and "lastEvent st = Some le"
  shows "loop_body F st (Inr \<lparr>LostSamples = 0, RawSample = raw\<rparr>) =
           (if FD le = FD ev \<and> lastDataStr st = formatData d
            then Continue (st\<lparr>repeatCount := repeatCount st + 1\<rparr>) []
            else if 0 < sint (repeatCount st)
            then Continue \<lparr>lastEvent = Some ev, lastDataStr = formatData d, repeatCount = 0\<rparr>
                   [repeat_line le (sint (repeatCount st)), event_line ev (formatData d)]
            else Continue \<lparr>lastEvent = Some ev, lastDataStr = formatData d, repeatCount = repeatCount st\<rparr>
                   [event_line ev (formatData d)])"
  using assms by (auto simp add: loop_body_def Let_def event_line_def repeat_line_def)

lemma loop_body_first:
  assumes "binary_Read raw = Inr ev" and "slice_to (Data ev) (DataLen ev) = Some d"
    and "flag_showAll F \<or> flag_fdFilter F (FD ev)"
    and "\<not> (flag_skipBinary F \<and> \<not> isPrintable d)"
  shows "loop_body F initial_state (Inr \<lparr>LostSamples = 0, RawSample = raw\<rparr>) =
           Continue \<lparr>lastEvent = Some ev, lastDataStr = formatData d, repeatCount = 0\<rparr>
             [event_line ev (formatData d)]"
  using assms by (auto simp add: loop_body_def Let_def event_line_def initial_state_def)

lemma event_loop_repeats:
  assumes "flag_suppressRepeats F"
    and "binary_Read raw = Inr ev" and "slice_to (Data ev) (DataLen ev) = Some d"
    and "flag_showAll F \<or> flag_fdFilter F (FD ev)"
    and "\<not> (flag_skipBinary F \<and> \<not> isPrintable d)"
    and "lastEvent st = Some le" and "FD le = FD ev" and "lastDataStr st = formatData d"
  shows "event_loop F st (replicate k (Inr \<lparr>LostSamples = 0, RawSample = raw\<rparr>) @ rest) =
           event_loop F (st\<lparr>repeatCount := repeatCount st + of_nat k\<rparr>) rest"
  using assms(6-8)
proof (induction k arbitrary: st)
  case 0
  then show ?case by simp
next
  case (Suc k)
  have step: "loop_body F st (Inr \<lparr>LostSamples = 0, RawSample = raw\<rparr>) =
                Continue (st\<lparr>repeatCount := repeatCount st + 1\<rparr>) []"
    using loop_body_event [OF assms(1-5) Suc.prems(1)] Suc.prems(2,3) by simp
  have "event_loop F (st\<lparr>repeatCount := repeatCount st + 1\<rparr>)
          (replicate k (Inr \<lparr>LostSamples = 0, RawSample = raw\<rparr>) @ rest) =
        event_loop F (st\<lparr>repeatCount := repeatCount st + 1 + of_nat k\<rparr>) rest"
    using Suc.IH [of "st\<lparr>repeatCount := repeatCount st + 1\<rparr>"] Suc.prems by simp
  then show ?case by (simp add: step add.assoc)
qed

text \<open>
  Claim C7, as amended. With repeat suppression on, an event that passes the filters and has
  a displayed predecessor is suppressed exactly when its descriptor and formatted line equal
  those of that predecessor, and the repeat counter goes up by one; any other event is
  printed, after exactly one summary line when the counter is positive, and resets the
  counter. So \<open>k\<close> consecutive repeats followed by a different event give the summary line
  with the count \<open>k\<close> and then the event's line. The end of the stream (a closed reader, or
  no further record) flushes nothing: after \<open>k\<close> repeats nothing more is printed.
\<close>

theorem repeat_suppression:
  assumes "flag_suppressRepeats F"
    and "binary_Read raw = Inr ev" and "slice_to (Data ev) (DataLen ev) = Some d"
    and "flag_showAll F \<or> flag_fdFilter F (FD ev)"
    and "\<not> (flag_skipBinary F \<and> \<not> isPrintable d)"
    and "lastEvent st = Some le"
  shows "loop_body F st (Inr \<lparr>LostSamples = 0, RawSample = raw\<rparr>) =
           (if FD le = FD ev \<and> lastDataStr st = formatData d
            then Continue (st\<lparr>repeatCount := repeatCount st + 1\<rparr>) []
            else if 0 < sint (repeatCount st)
            then Continue \<lparr>lastEvent = Some ev, lastDataStr = formatData d, repeatCount = 0\<rparr>
                   [repeat_line le (sint (repeatCount st)), event_line ev (formatData d)]
            else Continue \<lparr>lastEvent = Some ev, lastDataStr = formatData d, repeatCount = repeatCount st\<rparr>
                   [event_line ev (formatData d)])
         \<and> (FD le = FD ev \<and> lastDataStr st = formatData d \<and> repeatCount st = 0
              \<and> 0 < k \<and> k < 2 ^ 63
              \<and> binary_Read raw' = Inr ev' \<and> slice_to (Data ev') (DataLen ev') = Some d'
              \<and> (flag_showAll F \<or> flag_fdFilter F (FD ev'))
              \<and> \<not> (flag_skipBinary F \<and> \<not> isPrintable d')
              \<and> \<not> (FD ev = FD ev' \<and> formatData d = formatData d')
             \<longrightarrow> event_loop F st (replicate k (Inr \<lparr>LostSamples = 0, RawSample = raw\<rparr>)
                                    @ Inr \<lparr>LostSamples = 0, RawSample = raw'\<rparr> # rest) =
                   (repeat_line le (int k) # event_line ev' (formatData d')
                      # fst (event_loop F \<lparr>lastEvent = Some ev', lastDataStr = formatData d', repeatCount = 0\<rparr> rest),
                    snd (event_loop F \<lparr>lastEvent = Some ev', lastDataStr = formatData d', repeatCount = 0\<rparr> rest)))
         \<and> (FD le = FD ev \<and> lastDataStr st = formatData d
             \<longrightarrow> event_loop F st (replicate k (Inr \<lparr>LostSamples = 0, RawSample = raw\<rparr>)) = ([], Stopped)
                 \<and> event_loop F st (replicate k (Inr \<lparr>LostSamples = 0, RawSample = raw\<rparr>) @ Inl ErrClosed # rest)
                     = ([], Stopped))"
proof (intro conjI impI)
  show "loop_body F st (Inr \<lparr>LostSamples = 0, RawSample = raw\<rparr>) =
           (if FD le = FD ev \<and> lastDataStr st = formatData d
            then Continue (st\<lparr>repeatCount := repeatCount st + 1\<rparr>) []
            else if 0 < sint (repeatCount st)
            then Continue \<lparr>lastEvent = Some ev, lastDataStr = formatData d, repeatCount = 0\<rparr>
                   [repeat_line le (sint (repeatCount st)), event_line ev (formatData d)]
            else Continue \<lparr>lastEvent = Some ev, lastDataStr = formatData d, repeatCount = repeatCount st\<rparr>
                   [event_line ev (formatData d)])"
    by (rule loop_body_event [OF assms])
next
  assume a: "FD le = FD ev \<and> lastDataStr st = formatData d \<and> repeatCount st = 0
              \<and> 0 < k \<and> k < 2 ^ 63
              \<and> binary_Read raw' = Inr ev' \<and> slice_to (Data ev') (DataLen ev') = Some d'
              \<and> (flag_showAll F \<or> flag_fdFilter F (FD ev'))
              \<and> \<not> (flag_skipBinary F \<and> \<not> isPrintable d')
              \<and> \<not> (FD ev = FD ev' \<and> formatData d = formatData d')"
  let ?st = "st\<lparr>repeatCount := repeatCount st + of_nat k\<rparr>"
  let ?st' = "\<lparr>lastEvent = Some ev', lastDataStr = formatData d', repeatCount = 0\<rparr>"
  have run: "event_loop F st (replicate k (Inr \<lparr>LostSamples = 0, RawSample = raw\<rparr>)
                @ Inr \<lparr>LostSamples = 0, RawSample = raw'\<rparr> # rest) =
             event_loop F ?st (Inr \<lparr>LostSamples = 0, RawSample = raw'\<rparr> # rest)"
    using a by (intro event_loop_repeats [OF assms]) simp_all
  have cnt: "sint (repeatCount ?st) = int k"
    using a by (simp add: sint_of_nat_64)
  have "lastEvent ?st = Some le" using assms(6) by simp
  from loop_body_event [OF assms(1) _ _ _ _ this, of raw' ev' d']
  have "loop_body F ?st (Inr \<lparr>LostSamples = 0, RawSample = raw'\<rparr>) =
          Continue ?st' [repeat_line le (int k), event_line ev' (formatData d')]"
    using a cnt by auto
  then show "event_loop F st (replicate k (Inr \<lparr>LostSamples = 0, RawSample = raw\<rparr>)
                                    @ Inr \<lparr>LostSamples = 0, RawSample = raw'\<rparr> # rest) =
                   (repeat_line le (int k) # event_line ev' (formatData d')
                      # fst (event_loop F ?st' rest),
                    snd (event_loop F ?st' rest))"
    by (simp add: run split: prod.splits)
next
  assume a: "FD le = FD ev \<and> lastDataStr st = formatData d"
  from event_loop_repeats [OF assms, of k "[]"] a
  show "event_loop F st (replicate k (Inr \<lparr>LostSamples = 0, RawSample = raw\<rparr>)) = ([], Stopped)"
    by simp
next
  assume a: "FD le = FD ev \<and> lastDataStr st = formatData d"
  from event_loop_repeats [OF assms, of k "Inl ErrClosed # rest"] a
  show "event_loop F st (replicate k (Inr \<lparr>LostSamples = 0, RawSample = raw\<rparr>) @ Inl ErrClosed # rest)
          = ([], Stopped)"
    by (simp add: loop_body_def)
qed

section \<open>Concrete runs\<close>

lemma binary_Read_sample_of: "binary_Read (RawSample (sample_of p f s)) = Inr (decoded p f s)"
  by (simp add: sample_of_def captured_def decoded_def binary_Read_encode)

lemma sample_of_unfold: "sample_of p f s = \<lparr>LostSamples = 0, RawSample = RawSample (sample_of p f s)\<rparr>"
  by (simp add: sample_of_def)

lemma decoded_fields: "PID (decoded p f s) = p" "FD (decoded p f s) = f"
  by (simp_all add: decoded_def)

lemma slice_to_decoded:
  assumes "length s \<le> 240"
  shows "slice_to (Data (decoded p f s)) (DataLen (decoded p f s)) = Some s"
proof -
  have "unat (of_nat (length s) :: u32) = length s"
    using assms by (simp add: unat_of_nat take_bit_nat_eq_self)
  with assms show ?thesis by (simp add: slice_to_def min_def decoded_def)
qed

lemma decode_sample_of:
  "length s \<le> 240 \<Longrightarrow>
   decode_sample (RawSample (sample_of p f s)) = Done \<lparr>Event_PID = p, Event_FD = f, Payload = s\<rparr>"
  by (simp add: decode_sample_def binary_Read_sample_of make_Event_def slice_to_decoded decoded_fields)

lemma formatData_hi: "formatData (str ''hi'') = str ''hi''"
proof -
  have "formatData_isPrintable (str ''hi'')" by (simp add: byte_eval)
  from formatData_text [OF _ this] show ?thesis
    by (simp add: escaped_text_def escape_byte_def str_def)
qed

lemma formatData_yo: "formatData (str ''yo'') = str ''yo''"
proof -
  have "formatData_isPrintable (str ''yo'')" by (simp add: byte_eval)
  from formatData_text [OF _ this] show ?thesis
    by (simp add: escaped_text_def escape_byte_def str_def)
qed

lemma line_hi: "event_line (decoded 7 1 s) (str ''hi'') = Stdout (str ''[PID 7, stdout] hi'' @ [10])"
  by (simp add: event_line_def decoded_fields fdString_def fmt_d_def digits.simps str_def)

lemma line_yo: "event_line (decoded 7 1 s) (str ''yo'') = Stdout (str ''[PID 7, stdout] yo'' @ [10])"
  by (simp add: event_line_def decoded_fields fdString_def fmt_d_def digits.simps str_def)

lemma line_repeated:
  "repeat_line (decoded 7 1 s) 2 = Stdout (str ''[PID 7, stdout] Last message repeated 2 times'' @ [10])"
  by (simp add: repeat_line_def decoded_fields fdString_def fmt_d_def digits.simps str_def)

lemma length_hi: "length (str ''hi'') \<le> 240" and length_yo: "length (str ''yo'') \<le> 240"
  by (simp_all add: str_def)

lemma first_hi:
  "loop_body demo_flags initial_state (Inr (sample_of 7 1 (str ''hi''))) =
     Continue \<lparr>lastEvent = Some (decoded 7 1 (str ''hi'')), lastDataStr = str ''hi'', repeatCount = 0\<rparr>
       [Stdout (str ''[PID 7, stdout] hi'' @ [10])]"
proof -
  have "loop_body demo_flags initial_state
          (Inr \<lparr>LostSamples = 0, RawSample = RawSample (sample_of 7 1 (str ''hi''))\<rparr>) =
        Continue \<lparr>lastEvent = Some (decoded 7 1 (str ''hi'')),
                   lastDataStr = formatData (str ''hi''), repeatCount = 0\<rparr>
          [event_line (decoded 7 1 (str ''hi'')) (formatData (str ''hi''))]"
    by (rule loop_body_first [OF binary_Read_sample_of slice_to_decoded [OF length_hi]])
       (simp_all add: demo_flags_def)
  then show ?thesis
    by (simp only: formatData_hi line_hi sample_of_unfold [symmetric])
qed

theorem repeat_suppression_witness:
  "event_loop demo_flags initial_state
     [Inr (sample_of 7 1 (str ''hi'')), Inr (sample_of 7 1 (str ''hi'')),
      Inr (sample_of 7 1 (str ''hi'')), Inr (sample_of 7 1 (str ''yo''))] =
   ([Stdout (str ''[PID 7, stdout] hi'' @ [10]),
     Stdout (str ''[PID 7, stdout] Last message repeated 2 times'' @ [10]),
     Stdout (str ''[PID 7, stdout] yo'' @ [10])], Stopped)"
proof -
  let ?hi = "decoded 7 1 (str ''hi'')"
  let ?yo = "decoded 7 1 (str ''yo'')"
  let ?st = "\<lparr>lastEvent = Some ?hi, lastDataStr = str ''hi'', repeatCount = 0\<rparr>"
  have ne: "str ''hi'' \<noteq> str ''yo''" by (simp add: str_def)
  have "event_loop demo_flags ?st
          (replicate 2 (Inr \<lparr>LostSamples = 0, RawSample = RawSample (sample_of 7 1 (str ''hi''))\<rparr>)
             @ Inr \<lparr>LostSamples = 0, RawSample = RawSample (sample_of 7 1 (str ''yo''))\<rparr> # []) =
        (repeat_line ?hi (int 2) # event_line ?yo (formatData (str ''yo''))
           # fst (event_loop demo_flags \<lparr>lastEvent = Some ?yo, lastDataStr = formatData (str ''yo''), repeatCount = 0\<rparr> []),
         snd (event_loop demo_flags \<lparr>lastEvent = Some ?yo, lastDataStr = formatData (str ''yo''), repeatCount = 0\<rparr> []))"
    using repeat_suppression [where F = demo_flags and st = ?st and le = ?hi and ev = ?hi
        and raw = "RawSample (sample_of 7 1 (str ''hi''))" and d = "str ''hi''"
        and raw' = "RawSample (sample_of 7 1 (str ''yo''))" and ev' = ?yo and d' = "str ''yo''"
        and k = 2 and rest = "[]", OF _ binary_Read_sample_of slice_to_decoded [OF length_hi]]
      binary_Read_sample_of [of 7 1 "str ''yo''"] slice_to_decoded [OF length_yo, of 7 1] ne
    by (simp add: demo_flags_def formatData_hi formatData_yo decoded_fields)
  then have "event_loop demo_flags ?st
          [Inr (sample_of 7 1 (str ''hi'')), Inr (sample_of 7 1 (str ''hi'')), Inr (sample_of 7 1 (str ''yo''))] =
        ([Stdout (str ''[PID 7, stdout] Last message repeated 2 times'' @ [10]),
          Stdout (str ''[PID 7, stdout] yo'' @ [10])], Stopped)"
    by (simp add: numeral_2_eq_2 sample_of_unfold [symmetric] formatData_yo line_yo line_repeated)
  then show ?thesis
    by (simp add: first_hi)
qed

text \<open>
  Claim C7 as stated fails at the end of the stream: three identical writes and then a closed
  reader print the line once and no summary of the two suppressed repeats.
\<close>

theorem repeat_no_flush_counterexample:
  "event_loop demo_flags initial_state
     [Inr (sample_of 7 1 (str ''hi'')), Inr (sample_of 7 1 (str ''hi'')),
      Inr (sample_of 7 1 (str ''hi'')), Inl ErrClosed] =
   ([Stdout (str ''[PID 7, stdout] hi'' @ [10])], Stopped)"
proof -
  let ?hi = "decoded 7 1 (str ''hi'')"
  let ?st = "\<lparr>lastEvent = Some ?hi, lastDataStr = str ''hi'', repeatCount = 0\<rparr>"
  have "event_loop demo_flags ?st
          (replicate 2 (Inr \<lparr>LostSamples = 0, RawSample = RawSample (sample_of 7 1 (str ''hi''))\<rparr>)
             @ [Inl ErrClosed]) =
        event_loop demo_flags (?st\<lparr>repeatCount := repeatCount ?st + of_nat 2\<rparr>) [Inl ErrClosed]"
    by (rule event_loop_repeats [where le = ?hi, OF _ binary_Read_sample_of slice_to_decoded [OF length_hi]])
       (simp_all add: demo_flags_def formatData_hi decoded_fields)
  then have "event_loop demo_flags ?st
          [Inr (sample_of 7 1 (str ''hi'')), Inr (sample_of 7 1 (str ''hi'')), Inl ErrClosed] = ([], Stopped)"
    by (simp add: numeral_2_eq_2 sample_of_unfold [symmetric] loop_body_def)
  then show ?thesis
    by (simp add: first_hi)
qed

lemma isPrintable_hi: "isPrintable (str ''hi'')"
  using isPrintable_count [of "str ''hi''"] by (simp add: byte_eval)

theorem invalid_pattern_disables_filter_witness:
  "grepRegex (fst (Update demo_lib (demo_model\<lparr>filtering := True, input := str ''(''\<rparr>) (KeyMsg ''enter''))) = None
   \<and> state_after (Update demo_lib (demo_model\<lparr>filtering := True, input := str ''(''\<rparr>) (KeyMsg ''enter'')) = Normal
   \<and> pollNextEvent demo_lib
         (fst (Update demo_lib (demo_model\<lparr>filtering := True, input := str ''(''\<rparr>) (KeyMsg ''enter'')))
         [Inr (RawSample (sample_of 7 1 (str ''hi'')))]
       = (Delivered (EventMsg \<lparr>Event_PID = 7, Event_FD = 1, Payload = str ''hi''\<rparr>), [])"
proof -
  let ?m = "demo_model\<lparr>filtering := True, input := str ''(''\<rparr>"
  have h1: "filtering ?m" by simp
  have h2: "regexp_Compile demo_lib (textinput_Value demo_lib (input ?m)) = None"
    by (simp add: demo_lib_def)
  have d: "decode_sample (RawSample (sample_of 7 1 (str ''hi''))) =
             Done \<lparr>Event_PID = 7, Event_FD = 1, Payload = str ''hi''\<rparr>"
    by (rule decode_sample_of [OF length_hi])
  have s: "showAll ?m" by (simp add: demo_model_def newTUIModel_def)
  let ?ev = "\<lparr>Event_PID = 7, Event_FD = 1, Payload = str ''hi''\<rparr>"
  have pre: "decode_sample (RawSample (sample_of 7 1 (str ''hi''))) = Done ?ev
             \<and> (showAll ?m \<or> fdFilter ?m (Event_FD ?ev))
             \<and> \<not> (skipBinary ?m \<and> \<not> isPrintable (Payload ?ev))"
    using d s isPrintable_hi by simp
  from invalid_pattern_disables_filter [OF h1 h2] pre
  show ?thesis by blast
qed


theorem short_record_quits_tui_witness:
  "pollNextEvent demo_lib demo_model [Inr [1, 2, 3]] = (Delivered (ErrMsg ErrUnexpectedEOF), [])
   \<and> state_after (Update demo_lib demo_model (ErrMsg ErrUnexpectedEOF)) = Terminated
   \<and> loop_body demo_flags initial_state (Inr \<lparr>LostSamples = 0, RawSample = [1, 2, 3]\<rparr>) =
       Continue initial_state [Stderr (str ''Failed to parse event: unexpected EOF'' @ [10])]"
  using short_record_quits_tui [of "[1, 2, 3]" demo_lib demo_model "[]" demo_flags initial_state]
  by (auto simp add: decode_sample_def binary_Read_def Error_text_def str_def)

section \<open>Further properties of the pipeline\<close>

text \<open>An empty payload is formatted as the empty marker.\<close>

theorem formatData_empty: "formatData [] = str ''<empty>''"
  by (simp add: formatData_def)

text \<open>The descriptor filter of the interactive consumer is a membership test: with the
  allow-all flag off an event on a descriptor outside the allow-list is skipped; with the flag
  on, or the descriptor in the list, the event passes this stage (and is delivered when the
  binary and regex stages are off).\<close>

theorem descriptor_filter_membership:
  assumes "decode_sample raw = Done ev"
  shows "(\<not> showAll m \<and> \<not> fdFilter m (Event_FD ev) \<longrightarrow> pollNextEvent L m (Inr raw # rd) = pollNextEvent L m rd)
         \<and> ((showAll m \<or> fdFilter m (Event_FD ev)) \<and> \<not> skipBinary m \<and> grepRegex m = None
              \<longrightarrow> pollNextEvent L m (Inr raw # rd) = (Delivered (EventMsg ev), rd))"
  using assms by simp

theorem descriptor_filter_membership_witness:
  "pollNextEvent demo_lib (demo_model\<lparr>showAll := False, fdFilter := (\<lambda>f. f = 1 \<or> f = 2), skipBinary := False\<rparr>)
     [Inr (RawSample (sample_of 7 5 (str ''hi''))), Inr (RawSample (sample_of 7 2 (str ''hi'')))]
   = (Delivered (EventMsg \<lparr>Event_PID = 7, Event_FD = 2, Payload = str ''hi''\<rparr>), [])
   \<and> pollNextEvent demo_lib (demo_model\<lparr>skipBinary := False\<rparr>) [Inr (RawSample (sample_of 7 5 (str ''hi'')))]
   = (Delivered (EventMsg \<lparr>Event_PID = 7, Event_FD = 5, Payload = str ''hi''\<rparr>), [])"
proof -
  let ?m = "demo_model\<lparr>showAll := False, fdFilter := (\<lambda>f. f = 1 \<or> f = 2), skipBinary := False\<rparr>"
  let ?a = "demo_model\<lparr>skipBinary := False\<rparr>"
  have g: "grepRegex ?m = None" "grepRegex ?a = None" "showAll ?a"
    by (simp_all add: demo_model_def newTUIModel_def)
  have "pollNextEvent demo_lib ?m
          (Inr (RawSample (sample_of 7 5 (str ''hi''))) # [Inr (RawSample (sample_of 7 2 (str ''hi'')))]) =
        pollNextEvent demo_lib ?m [Inr (RawSample (sample_of 7 2 (str ''hi'')))]"
    using descriptor_filter_membership [OF decode_sample_of [OF length_hi], of ?m 7 5 demo_lib]
    by simp
  moreover have "pollNextEvent demo_lib ?m (Inr (RawSample (sample_of 7 2 (str ''hi''))) # []) =
        (Delivered (EventMsg \<lparr>Event_PID = 7, Event_FD = 2, Payload = str ''hi''\<rparr>), [])"
    using descriptor_filter_membership [OF decode_sample_of [OF length_hi], of ?m 7 2 demo_lib "[]"] g
    by simp
  moreover have "pollNextEvent demo_lib ?a (Inr (RawSample (sample_of 7 5 (str ''hi''))) # []) =
        (Delivered (EventMsg \<lparr>Event_PID = 7, Event_FD = 5, Payload = str ''hi''\<rparr>), [])"
    using descriptor_filter_membership [OF decode_sample_of [OF length_hi], of ?a 7 5 demo_lib "[]"] g
    by simp
  ultimately show ?thesis by simp
qed

end
